theory Spec2Isabelle
  imports Main
begin

section \<open>Configuration constants of \<^verbatim>\<open>faiss_manager.py\<close>\<close>

definition CHUNK_SIZE :: nat where
  "CHUNK_SIZE = 512"

definition CHUNK_OVERLAP :: nat where
  "CHUNK_OVERLAP = 128"

section \<open>The chunker: \<^verbatim>\<open>FaissManager._chunk_text\<close>\<close>

text \<open>
  Python's \<^verbatim>\<open>str.split()\<close> without arguments cuts the text at runs of whitespace and
  never yields an empty token. A \<^typ>\<open>char\<close> is one byte, so the model covers the code
  points below 256; those for which \<^verbatim>\<open>str.isspace\<close> holds are listed here.
\<close>

definition is_space :: "char \<Rightarrow> bool" where
  "is_space c = (c \<in> set [CHR 0x09, CHR 0x0A, CHR 0x0B, CHR 0x0C, CHR 0x0D,
                        CHR 0x1C, CHR 0x1D, CHR 0x1E, CHR 0x1F, CHR 0x20,
                        CHR 0x85, CHR 0xA0])"

text \<open>\<open>split_acc tok cs\<close>: \<open>tok\<close> is the token being read, reversed.\<close>

fun split_acc :: "string \<Rightarrow> string \<Rightarrow> string list" where
  "split_acc tok [] = (if tok = [] then [] else [rev tok])"
| "split_acc tok (c # cs) =
     (if is_space c
      then (if tok = [] then split_acc [] cs else rev tok # split_acc [] cs)
      else split_acc (c # tok) cs)"

definition split :: "string \<Rightarrow> string list" where
  "split text = split_acc [] text"

text \<open>\<^verbatim>\<open>" ".join(tokens)\<close>\<close>

fun join :: "string list \<Rightarrow> string" where
  "join [] = []"
| "join [t] = t"
| "join (t # u # ts) = t @ '' '' @ join (u # ts)"

text \<open>
  The loop \<^verbatim>\<open>for i in range(0, len(tokens), CHUNK_SIZE - CHUNK_OVERLAP)\<close>, which appends
  \<^verbatim>\<open>" ".join(tokens[i:i + CHUNK_SIZE])\<close> at every \<open>i\<close> it visits.
\<close>

function chunk_loop :: "string list \<Rightarrow> nat \<Rightarrow> string list" where
  "chunk_loop tokens i =
     (if i < length tokens
      then join (take CHUNK_SIZE (drop i tokens))
             # chunk_loop tokens (i + (CHUNK_SIZE - CHUNK_OVERLAP))
      else [])"
  by pat_completeness auto
termination
  by (relation "measure (\<lambda>(tokens, i). length tokens - i)")
     (auto simp: CHUNK_SIZE_def CHUNK_OVERLAP_def)

declare chunk_loop.simps [simp del]

definition chunk_text :: "string \<Rightarrow> string list" where
  "chunk_text text = chunk_loop (split text) 0"

section \<open>The two stores and the manager\<close>

text \<open>
  A row of the table \<^verbatim>\<open>chunks\<close>. The \<^verbatim>\<open>SERIAL\<close> column \<^verbatim>\<open>id\<close> is never read by the
  program and is left out.
\<close>

record chunk_row =
  row_doc_id :: string
  row_chunk_text :: string
  row_vector_id :: int

text \<open>
  The manager object together with the two durable stores it owns:
  \<^item> \<open>index\<close>: the in-memory \<^verbatim>\<open>IndexIDMap\<close>, the stored (id, vector) pairs in insertion
    order; its \<^verbatim>\<open>ntotal\<close> is their number;
  \<^item> \<open>index_file\<close>: the file at \<^verbatim>\<open>index_path\<close>, \<open>None\<close> when it does not exist;
  \<^item> \<open>chunks_tbl\<close>: the committed rows of the table \<^verbatim>\<open>chunks\<close>;
  \<^item> \<open>pending\<close>: the rows inserted in the open transaction of the one connection
    \<^verbatim>\<open>self.conn\<close> and neither committed nor rolled back yet. The connection sees
    them: its statements work on the committed rows followed by the pending ones.
  The vectors are of an arbitrary type \<open>'v\<close>: the embedding model is a parameter.
\<close>

record 'v manager =
  index :: "(int \<times> 'v) list"
  index_file :: "(int \<times> 'v) list option"
  chunks_tbl :: "chunk_row list"
  pending :: "chunk_row list"

definition visible :: "'v manager \<Rightarrow> chunk_row list" where
  "visible s = chunks_tbl s @ pending s"

definition ntotal :: "'v manager \<Rightarrow> int" where
  "ntotal s = int (length (index s))"

text \<open>\<^verbatim>\<open>_load_index\<close>: read the file when it exists, else a new empty index.\<close>

definition load_index :: "'v manager \<Rightarrow> (int \<times> 'v) list" where
  "load_index s = (case index_file s of Some ix \<Rightarrow> ix | None \<Rightarrow> [])"

text \<open>\<^verbatim>\<open>_save_index\<close>: write the whole in-memory index to the file.\<close>

definition save_index :: "'v manager \<Rightarrow> 'v manager" where
  "save_index s = s\<lparr>index_file := Some (index s)\<rparr>"

text \<open>
  \<^verbatim>\<open>__init__\<close> over a given file and table: a new connection has no open
  transaction, the table is created only if it does not exist, the index is loaded from
  the file.
\<close>

definition init :: "(int \<times> 'v) list option \<Rightarrow> chunk_row list \<Rightarrow> 'v manager" where
  "init file tbl =
     (let s = \<lparr>index = [], index_file = file, chunks_tbl = tbl, pending = []\<rparr>
      in s\<lparr>index := load_index s\<rparr>)"

subsection \<open>Errors\<close>

text \<open>
  Every exception the program catches is a \<^verbatim>\<open>psycopg2.Error\<close>. Two kinds are told
  apart: the violation of \<^verbatim>\<open>vector_id BIGINT NOT NULL UNIQUE\<close>, which the rows the
  connection sees decide, and any other failure of a statement, which the environment
  decides. A \<open>pg_fault\<close> says which database operation of a call fails for such an
  outside reason, counting the \<^verbatim>\<open>execute\<close> and \<^verbatim>\<open>commit\<close> calls from 0. The
  connection itself stays usable, so \<^verbatim>\<open>rollback\<close> succeeds.

  Two exceptions are no \<^verbatim>\<open>psycopg2.Error\<close>, so no handler of the program catches them:
  \<^item> \<open>ValueError\<close>: \<^verbatim>\<open>cursor.execute\<close> refuses, before it sends anything, a string
    parameter that contains the character NUL;
  \<^item> \<open>IndexSearchError\<close>: \<^verbatim>\<open>index.search\<close> of the vector index library raises when it
    is asked for fewer than one neighbour.
\<close>

datatype error = PgError | UniqueViolation | ValueError | IndexSearchError

definition is_psycopg2_error :: "error \<Rightarrow> bool" where
  "is_psycopg2_error e = (e = PgError \<or> e = UniqueViolation)"

datatype pg_fault = NoFault | FailAt nat

definition pg_raises :: "pg_fault \<Rightarrow> nat \<Rightarrow> bool" where
  "pg_raises f n = (f = FailAt n)"

definition has_nul :: "string \<Rightarrow> bool" where
  "has_nul t = (CHR 0x00 \<in> set t)"

text \<open>
  \<^verbatim>\<open>for i, chunk in enumerate(chunks): cursor.execute(INSERT ...)\<close> over the chunks
  paired with their vector ids; \<open>i\<close> counts the statements, \<open>tbl\<close> are the committed
  rows and \<open>p\<close> the pending ones. The loop ends with the pending rows and, when a
  statement raised, the exception: first the parameters are adapted (NUL), then the
  statement is sent (outside fault), then the table checks the \<^verbatim>\<open>UNIQUE\<close> constraint.
\<close>

fun insert_loop ::
  "pg_fault \<Rightarrow> string \<Rightarrow> nat \<Rightarrow> (string \<times> int) list \<Rightarrow> chunk_row list
     \<Rightarrow> chunk_row list \<Rightarrow> error option \<times> chunk_row list" where
  "insert_loop f d i [] tbl p = (None, p)"
| "insert_loop f d i ((chunk, vid) # rest) tbl p =
     (if has_nul d \<or> has_nul chunk then (Some ValueError, p)
      else if pg_raises f i then (Some PgError, p)
      else if vid \<in> set (map row_vector_id (tbl @ p)) then (Some UniqueViolation, p)
      else insert_loop f d (Suc i) rest tbl
             (p @ [\<lparr>row_doc_id = d, row_chunk_text = chunk, row_vector_id = vid\<rparr>]))"

text \<open>\<^verbatim>\<open>np.arange(start, stop)\<close> on integers.\<close>

definition arange :: "int \<Rightarrow> int \<Rightarrow> int list" where
  "arange start stop = [start..stop - 1]"

subsection \<open>\<^verbatim>\<open>FaissManager.add_document\<close>\<close>

text \<open>
  The function returns \<^verbatim>\<open>None\<close> or raises; the model returns \<open>Inr ()\<close> or the error,
  and the manager after the call. The index has been extended when the transaction
  starts. When a statement or the commit raises a \<^verbatim>\<open>psycopg2.Error\<close>, the handler rolls
  back, which drops every pending row, and re-raises. Another exception passes the
  handler: nothing is rolled back and the rows inserted so far stay pending. The commit
  makes every pending row a committed one; the index file is written after it.
\<close>

definition add_document ::
  "(string \<Rightarrow> 'v) \<Rightarrow> pg_fault \<Rightarrow> string \<Rightarrow> string \<Rightarrow> 'v manager
     \<Rightarrow> (error + unit) \<times> 'v manager" where
  "add_document encode f d content s =
     (let chunks = chunk_text content in
      if chunks = [] then (Inr (), s)
      else
        let embeddings = map encode chunks;
            start_id = ntotal s;
            vector_ids = arange start_id (start_id + int (length chunks));
            s1 = s\<lparr>index := index s @ zip vector_ids embeddings\<rparr>
        in case insert_loop f d 0 (zip chunks vector_ids) (chunks_tbl s1) (pending s1) of
             (Some e, p) \<Rightarrow>
               if is_psycopg2_error e then (Inl e, s1\<lparr>pending := []\<rparr>)
               else (Inl e, s1\<lparr>pending := p\<rparr>)
           | (None, p) \<Rightarrow>
               if pg_raises f (length chunks) then (Inl PgError, s1\<lparr>pending := []\<rparr>)
               else (Inr (), save_index (s1\<lparr>chunks_tbl := chunks_tbl s1 @ p, pending := []\<rparr>)))"

subsection \<open>The endpoint \<^verbatim>\<open>/add\<close> of \<^verbatim>\<open>main.py\<close>\<close>

text \<open>
  With the manager initialised, the endpoint calls \<^verbatim>\<open>add_document\<close> and answers with
  the fixed status and a message that names the document id; any exception becomes an
  \<^verbatim>\<open>HTTPException\<close> with status code 500 (the text of its detail is left out).
\<close>

record add_document_response =
  status :: string
  message :: string

datatype http_exception = HTTPException nat error

definition add_document_endpoint ::
  "(string \<Rightarrow> 'v) \<Rightarrow> pg_fault \<Rightarrow> string \<Rightarrow> string \<Rightarrow> 'v manager
     \<Rightarrow> (http_exception + add_document_response) \<times> 'v manager" where
  "add_document_endpoint encode f doc_id content s =
     (case add_document encode f doc_id content s of
        (Inr u, s') \<Rightarrow>
          (Inr \<lparr>status = ''ok'',
                message = ''Document '' @ [CHR 0x27] @ doc_id @ [CHR 0x27]
                            @ '' added successfully.''\<rparr>, s')
      | (Inl e, s') \<Rightarrow> (Inl (HTTPException 500 e), s'))"

subsection \<open>\<^verbatim>\<open>FaissManager.search\<close>\<close>

record 'd search_result =
  res_doc_id :: string
  res_chunk_text :: string
  score :: 'd

text \<open>
  \<open>knn ix q k\<close> stands for the answer of \<^verbatim>\<open>index.search(q, k)\<close> of the vector index
  library on the stored pairs \<open>ix\<close> when \<open>1 \<le> k\<close>: the list of (distance, id) pairs of
  the single query row, in the order the library returns them. Distances are of an
  arbitrary type \<open>'d\<close>. For \<open>k < 1\<close> the library raises; the call is made before the
  \<^verbatim>\<open>try\<close> block. The only database statement of \<^verbatim>\<open>search\<close> is the \<^verbatim>\<open>SELECT\<close>,
  operation 0; its handler rolls back and re-raises.
\<close>

definition search ::
  "(string \<Rightarrow> 'v) \<Rightarrow> ((int \<times> 'v) list \<Rightarrow> 'v \<Rightarrow> int \<Rightarrow> ('d \<times> int) list) \<Rightarrow> pg_fault
     \<Rightarrow> string \<Rightarrow> int \<Rightarrow> 'v manager \<Rightarrow> (error + 'd search_result list) \<times> 'v manager" where
  "search encode knn f query k s =
     (let query_embedding = encode query in
      if k < 1 then (Inl IndexSearchError, s)
      else
        let nbrs = knn (index s) query_embedding k;
            vec_ids_tuple = filter (\<lambda>vid. vid \<noteq> - 1) (map snd nbrs)
        in if vec_ids_tuple = [] then (Inr [], s)
           else if pg_raises f 0 then (Inl PgError, s\<lparr>pending := []\<rparr>)
           else
             let rows = filter (\<lambda>r. row_vector_id r \<in> set vec_ids_tuple) (visible s);
                 rows_by_vec_id = map_of (rev (map (\<lambda>r. (row_vector_id r, r)) rows))
             in (Inr (concat (map (\<lambda>(dist, vec_id).
                        case rows_by_vec_id vec_id of
                          None \<Rightarrow> []
                        | Some row \<Rightarrow> [\<lparr>res_doc_id = row_doc_id row,
                                        res_chunk_text = row_chunk_text row,
                                        score = dist\<rparr>]) nbrs)), s))"

subsection \<open>\<^verbatim>\<open>FaissManager.reset\<close>\<close>

text \<open>
  Step 1 is \<^verbatim>\<open>TRUNCATE TABLE chunks\<close> (operation 0) and \<^verbatim>\<open>commit\<close> (operation 1); its
  handler prints, rolls back and does not re-raise. Step 2 removes the index file
  when it exists and loads the index again.
\<close>

definition reset :: "pg_fault \<Rightarrow> 'v manager \<Rightarrow> (error + unit) \<times> 'v manager" where
  "reset f s =
     (let s1 = (if pg_raises f 0 \<or> pg_raises f 1 then s\<lparr>pending := []\<rparr>
                else s\<lparr>chunks_tbl := [], pending := []\<rparr>);
          s2 = (if index_file s1 \<noteq> None then s1\<lparr>index_file := None\<rparr> else s1);
          s3 = s2\<lparr>index := load_index s2\<rparr>
      in (Inr (), s3))"

section \<open>Notions used to state the properties\<close>

text \<open>The step of the chunking loop.\<close>

definition stride :: nat where
  "stride = CHUNK_SIZE - CHUNK_OVERLAP"

text \<open>
  The chunk count as the specification words it: the ceiling of
  \<open>max (T - overlap) 0 / stride\<close>, with the ceiling of an integer quotient written as
  a negated floor division.
\<close>

definition spec_chunk_count :: "nat \<Rightarrow> nat" where
  "spec_chunk_count T =
     nat (- ((- max (int T - int CHUNK_OVERLAP) 0) div int stride))"

text \<open>The rows one call inserts: one per chunk, with the id paired to it.\<close>

definition rows_of :: "string \<Rightarrow> string list \<Rightarrow> int list \<Rightarrow> chunk_row list" where
  "rows_of d chunks ids =
     map (\<lambda>(chunk, vid). \<lparr>row_doc_id = d, row_chunk_text = chunk, row_vector_id = vid\<rparr>)
         (zip chunks ids)"




text \<open>
  Invariant I1: every vector id of the index has exactly one row, and the vector id
  of every row has exactly one entry in the index.
\<close>

definition I1 :: "'v manager \<Rightarrow> bool" where
  "I1 s =
     (list_all (\<lambda>v. length (filter (\<lambda>r. row_vector_id r = v) (chunks_tbl s)) = 1)
               (map fst (index s))
      \<and> list_all (\<lambda>r. length (filter (\<lambda>e. fst e = row_vector_id r) (index s)) = 1)
                  (chunks_tbl s))"

text \<open>
  A sequence of \<^verbatim>\<open>add_document\<close> calls during which no store operation fails for an
  outside reason; it ends at the first call that raises.
\<close>

fun ingest ::
  "(string \<Rightarrow> 'v) \<Rightarrow> (string \<times> string) list \<Rightarrow> 'v manager \<Rightarrow> error + 'v manager" where
  "ingest encode [] s = Inr s"
| "ingest encode ((d, content) # docs) s =
     (case add_document encode NoFault d content s of
        (Inl e, s') \<Rightarrow> Inl e
      | (Inr u, s') \<Rightarrow> ingest encode docs s')"

text \<open>
  The join of \<^verbatim>\<open>search\<close>, position by position: a neighbour contributes one result
  when its id is not the sentinel and the table has a row for it (the last such row,
  as the dictionary keeps the last), and nothing otherwise.
\<close>

definition join_rows :: "chunk_row list \<Rightarrow> ('d \<times> int) list \<Rightarrow> 'd search_result list" where
  "join_rows tbl nbrs =
     concat (map (\<lambda>(dist, vec_id).
        if vec_id = - 1 then []
        else case find (\<lambda>r. row_vector_id r = vec_id) (rev tbl) of
               None \<Rightarrow> []
             | Some row \<Rightarrow> [\<lparr>res_doc_id = row_doc_id row,
                             res_chunk_text = row_chunk_text row,
                             score = dist\<rparr>]) nbrs)"

text \<open>
  The block of ids a call allocates: \<^verbatim>\<open>np.arange(start_id, start_id + len(chunks))\<close>
  with \<^verbatim>\<open>start_id = self.index.ntotal\<close>.
\<close>

definition vector_ids :: "'v manager \<Rightarrow> string \<Rightarrow> int list" where
  "vector_ids s content =
     arange (ntotal s) (ntotal s + int (length (chunk_text content)))"


section \<open>The chunking loop\<close>

lemma stride_pos: "0 < stride"
  by (simp add: stride_def CHUNK_SIZE_def CHUNK_OVERLAP_def)

lemma div_plus_self: "0 < k \<Longrightarrow> (m + k) div k = Suc (m div (k::nat))"
  using div_add_self2[of k m] by simp

lemma ceil_step:
  assumes k: "0 < k" and lt: "i < (n::nat)"
  shows "(n - i + (k - 1)) div k = Suc ((n - (i + k) + (k - 1)) div k)"
proof (cases "i + k \<le> n")
  case True
  then have "n - i + (k - 1) = (n - (i + k) + (k - 1)) + k" by linarith
  then have "(n - i + (k - 1)) div k = ((n - (i + k) + (k - 1)) + k) div k"
    by (rule arg_cong)
  also have "\<dots> = Suc ((n - (i + k) + (k - 1)) div k)"
    using k by (rule div_plus_self)
  finally show ?thesis .
next
  case False
  then have z: "n - (i + k) = 0" by linarith
  from False lt k have e: "n - i + (k - 1) = (n - i - 1) + k" by linarith
  from False lt have s: "n - i - 1 < k" by linarith
  have "(n - i + (k - 1)) div k = ((n - i - 1) + k) div k"
    using e by (rule arg_cong)
  also have "\<dots> = Suc ((n - i - 1) div k)" using k by (rule div_plus_self)
  also have "\<dots> = Suc 0" using s by simp
  finally have r: "(n - i + (k - 1)) div k = Suc 0" .
  have "k - 1 < k" using k by linarith
  then have "(k - 1) div k = 0" by simp
  then have "(n - (i + k) + (k - 1)) div k = 0" using z by simp
  then have "Suc ((n - (i + k) + (k - 1)) div k) = Suc 0" by (rule arg_cong)
  with r show ?thesis by (rule trans[OF _ sym])
qed

lemma chunk_loop_step:
  "i < length tokens \<Longrightarrow>
     chunk_loop tokens i = join (take CHUNK_SIZE (drop i tokens)) # chunk_loop tokens (i + stride)"
  by (subst chunk_loop.simps) (simp add: stride_def)

lemma chunk_loop_stop: "\<not> i < length tokens \<Longrightarrow> chunk_loop tokens i = []"
  by (subst chunk_loop.simps) simp

lemma chunk_loop_windows:
  "chunk_loop tokens i =
     map (\<lambda>j. join (take CHUNK_SIZE (drop (i + j * stride) tokens)))
         [0..<(length tokens - i + (stride - 1)) div stride]"
proof (induction tokens i rule: chunk_loop.induct)
  case (1 tokens i)
  show ?case
  proof (cases "i < length tokens")
    case True
    let ?m = "(length tokens - (i + stride) + (stride - 1)) div stride"
    have cnt: "(length tokens - i + (stride - 1)) div stride = Suc ?m"
      using stride_pos True by (rule ceil_step)
    have ih: "chunk_loop tokens (i + stride) =
        map (\<lambda>j. join (take CHUNK_SIZE (drop (i + stride + j * stride) tokens))) [0..<?m]"
      using "1.IH"[OF True] by (simp only: stride_def)
    have "[0..<Suc ?m] = 0 # map Suc [0..<?m]"
      by (simp only: upt_conv_Cons[OF zero_less_Suc] map_Suc_upt)
    then show ?thesis
      by (simp only: cnt chunk_loop_step[OF True] ih) (simp add: o_def add.assoc)
  next
    case False
    then have "length tokens - i = 0" by simp
    moreover have "(stride - 1) div stride = 0" using stride_pos by simp
    ultimately show ?thesis by (simp add: chunk_loop_stop[OF False])
  qed
qed

section \<open>The join of search\<close>

lemma map_of_keyed:
  "map_of (map (\<lambda>r. (g r, r)) ys) v = find (\<lambda>r. g r = v) ys"
  by (induction ys) auto

lemma find_filter_in:
  "find (\<lambda>r. g r = v) (filter (\<lambda>r. g r \<in> S) ys) = (if v \<in> S then find (\<lambda>r. g r = v) ys else None)"
  by (induction ys) auto

lemma find_SomeD: "find P xs = Some x \<Longrightarrow> x \<in> set xs \<and> P x"
  by (induction xs) (auto split: if_splits)

lemma dict_lookup:
  "map_of (rev (map (\<lambda>r. (row_vector_id r, r)) (filter (\<lambda>r. row_vector_id r \<in> S) tbl))) v
     = (if v \<in> S then find (\<lambda>r. row_vector_id r = v) (rev tbl) else None)"
  by (simp add: rev_map rev_filter map_of_keyed find_filter_in)

lemma search_join:
  "search encode knn f query k s =
     (if k < 1 then (Inl IndexSearchError, s)
      else
        let nbrs = knn (index s) (encode query) k in
        if filter (\<lambda>vid. vid \<noteq> - 1) (map snd nbrs) = [] then (Inr [], s)
        else if pg_raises f 0 then (Inl PgError, s\<lparr>pending := []\<rparr>)
        else (Inr (join_rows (visible s) nbrs), s))"
proof -
  define nbrs where "nbrs = knn (index s) (encode query) k"
  define S where "S = set (filter (\<lambda>vid. vid \<noteq> - 1) (map snd nbrs))"
  have "(case map_of (rev (map (\<lambda>r. (row_vector_id r, r))
                 (filter (\<lambda>r. row_vector_id r \<in> S) (visible s)))) vid of
             None \<Rightarrow> []
           | Some row \<Rightarrow> [\<lparr>res_doc_id = row_doc_id row, res_chunk_text = row_chunk_text row,
                           score = dist\<rparr>])
        = (if vid = - 1 then []
           else case find (\<lambda>r. row_vector_id r = vid) (rev (visible s)) of
               None \<Rightarrow> []
             | Some row \<Rightarrow> [\<lparr>res_doc_id = row_doc_id row, res_chunk_text = row_chunk_text row,
                             score = dist\<rparr>])"
    if "(dist, vid) \<in> set nbrs" for dist vid
  proof -
    have "vid \<in> S \<longleftrightarrow> vid \<noteq> - 1" using that by (force simp: S_def)
    then show ?thesis by (simp add: dict_lookup)
  qed
  then have "concat (map (\<lambda>(dist, vec_id).
               case map_of (rev (map (\<lambda>r. (row_vector_id r, r))
                 (filter (\<lambda>r. row_vector_id r \<in> S) (visible s)))) vec_id of
                        None \<Rightarrow> []
                      | Some row \<Rightarrow> [\<lparr>res_doc_id = row_doc_id row,
                                      res_chunk_text = row_chunk_text row,
                                      score = dist\<rparr>]) nbrs)
        = join_rows (visible s) nbrs"
    unfolding join_rows_def by (intro arg_cong[where f = concat] map_cong) auto
  then show ?thesis
    unfolding search_def Let_def nbrs_def[symmetric] S_def[symmetric] by (simp only:)
qed

lemma join_rows_scores:
  "map score (join_rows tbl nbrs)
     = map fst (filter (\<lambda>(dist, vid). vid \<noteq> - 1 \<and> vid \<in> set (map row_vector_id tbl)) nbrs)"
proof (induction nbrs)
  case Nil
  show ?case by (simp add: join_rows_def)
next
  case (Cons p nbrs)
  obtain dist vid where p: "p = (dist, vid)" by (cases p)
  have tl: "join_rows tbl (p # nbrs) = join_rows tbl [p] @ join_rows tbl nbrs"
    by (simp add: join_rows_def)
  have hd: "map score (join_rows tbl [p])
      = (if vid \<noteq> - 1 \<and> vid \<in> set (map row_vector_id tbl) then [dist] else [])"
  proof (cases "find (\<lambda>r. row_vector_id r = vid) (rev tbl)")
    case None
    then have "vid \<notin> set (map row_vector_id tbl)" by (auto simp: find_None_iff)
    with None show ?thesis by (simp add: join_rows_def p)
  next
    case (Some r)
    then have "vid \<in> set (map row_vector_id tbl)" by (auto dest!: find_SomeD)
    with Some show ?thesis by (simp add: join_rows_def p)
  qed
  show ?case by (simp only: tl map_append hd Cons.IH) (simp add: p)
qed

section \<open>The metadata transaction and one ingestion\<close>

lemma length_arange: "length (arange a (a + int n)) = n"
  by (simp add: arange_def)

lemma set_arange: "set (arange a b) = {a..<b}"
  by (auto simp: arange_def)

lemma distinct_arange: "distinct (arange a b)"
  by (simp add: arange_def)

lemma length_vector_ids: "length (vector_ids s content) = length (chunk_text content)"
  by (simp add: vector_ids_def length_arange)

lemma set_vector_ids:
  "set (vector_ids s content) = {ntotal s..<ntotal s + int (length (chunk_text content))}"
  by (simp add: vector_ids_def set_arange)

lemma distinct_vector_ids: "distinct (vector_ids s content)"
  by (simp add: vector_ids_def distinct_arange)

lemma zip_rows_of:
  "map (\<lambda>(chunk, vid). \<lparr>row_doc_id = d, row_chunk_text = chunk, row_vector_id = vid\<rparr>)
       (zip chunks ids) = rows_of d chunks ids"
  by (simp add: rows_of_def)

lemma insert_loop_None:
  "insert_loop f d i cvs tbl p = (None, p') \<Longrightarrow>
     p' = p @ map (\<lambda>(chunk, vid). \<lparr>row_doc_id = d, row_chunk_text = chunk, row_vector_id = vid\<rparr>) cvs
     \<and> distinct (map snd cvs)
     \<and> set (map snd cvs) \<inter> set (map row_vector_id (tbl @ p)) = {}
     \<and> (\<forall>j < length cvs. \<not> pg_raises f (i + j))
     \<and> (cvs \<noteq> [] \<longrightarrow> \<not> has_nul d)
     \<and> (\<forall>c \<in> set (map fst cvs). \<not> has_nul c)"
proof (induction cvs arbitrary: i p)
  case Nil
  then show ?case by simp
next
  case (Cons q cvs)
  obtain chunk vid where q: "q = (chunk, vid)" by (cases q)
  let ?r = "\<lparr>row_doc_id = d, row_chunk_text = chunk, row_vector_id = vid\<rparr>"
  from Cons.prems have nn: "\<not> has_nul d" "\<not> has_nul chunk"
    and nf: "\<not> pg_raises f i"
    and fresh: "vid \<notin> set (map row_vector_id (tbl @ p))"
    and rest: "insert_loop f d (Suc i) cvs tbl (p @ [?r]) = (None, p')"
    by (auto simp: q split: if_splits)
  from Cons.IH[OF rest] have ih:
    "p' = (p @ [?r]) @ map (\<lambda>(chunk, vid). \<lparr>row_doc_id = d, row_chunk_text = chunk, row_vector_id = vid\<rparr>) cvs"
    "distinct (map snd cvs)"
    "set (map snd cvs) \<inter> set (map row_vector_id (tbl @ p @ [?r])) = {}"
    "\<forall>j < length cvs. \<not> pg_raises f (Suc i + j)"
    "\<forall>c \<in> set (map fst cvs). \<not> has_nul c"
    by blast+
  have "\<forall>j < length (q # cvs). \<not> pg_raises f (i + j)"
  proof (intro allI impI)
    fix j assume "j < length (q # cvs)"
    then show "\<not> pg_raises f (i + j)"
      using nf ih(4) by (cases j) auto
  qed
  moreover have "distinct (map snd (q # cvs))"
    using ih(2,3) by (auto simp: q)
  moreover have "set (map snd (q # cvs)) \<inter> set (map row_vector_id (tbl @ p)) = {}"
    using ih(3) fresh by (auto simp: q)
  moreover have "\<forall>c \<in> set (map fst (q # cvs)). \<not> has_nul c"
    using ih(5) nn(2) by (simp add: q)
  ultimately show ?case using ih(1) nn(1) by (simp add: q)
qed

lemma insert_loop_ok:
  "\<not> has_nul d \<Longrightarrow> \<forall>c \<in> set (map fst cvs). \<not> has_nul c \<Longrightarrow>
   distinct (map snd cvs) \<Longrightarrow> set (map snd cvs) \<inter> set (map row_vector_id (tbl @ p)) = {} \<Longrightarrow>
     insert_loop NoFault d i cvs tbl p =
       (None, p @ map (\<lambda>(chunk, vid). \<lparr>row_doc_id = d, row_chunk_text = chunk, row_vector_id = vid\<rparr>) cvs)"
proof (induction cvs arbitrary: i p)
  case Nil
  then show ?case by simp
next
  case (Cons q cvs)
  obtain chunk vid where q: "q = (chunk, vid)" by (cases q)
  let ?r = "\<lparr>row_doc_id = d, row_chunk_text = chunk, row_vector_id = vid\<rparr>"
  have fresh: "vid \<notin> set (map row_vector_id (tbl @ p))" using Cons.prems(4) by (auto simp: q)
  have nn: "\<not> has_nul chunk" using Cons.prems(2) by (simp add: q)
  have n': "\<forall>c \<in> set (map fst cvs). \<not> has_nul c" using Cons.prems(2) by simp
  have d': "distinct (map snd cvs)" using Cons.prems(3) by simp
  have "set (map snd cvs) \<inter> set (map row_vector_id (tbl @ p @ [?r])) = {}"
    using Cons.prems(3,4) by (auto simp: q)
  from Cons.IH[OF Cons.prems(1) n' d' this, of "Suc i"] fresh nn Cons.prems(1) show ?case
    by (simp add: q pg_raises_def)
qed

lemma insert_loop_errors:
  "insert_loop f d i cvs tbl p = (Some e, p') \<Longrightarrow>
     (is_psycopg2_error e \<or> e = ValueError)
     \<and> (e = ValueError \<longrightarrow> has_nul d \<or> (\<exists>c \<in> set (map fst cvs). has_nul c))"
proof (induction cvs arbitrary: i p)
  case Nil
  then show ?case by simp
next
  case (Cons q cvs)
  obtain chunk vid where q: "q = (chunk, vid)" by (cases q)
  show ?case
  proof (cases "has_nul d \<or> has_nul chunk")
    case True
    with Cons.prems show ?thesis by (auto simp: q)
  next
    case False
    note nn = this
    show ?thesis
    proof (cases "pg_raises f i \<or> vid \<in> set (map row_vector_id (tbl @ p))")
      case True
      with Cons.prems nn show ?thesis
        by (auto simp: q is_psycopg2_error_def split: if_splits)
    next
      case False
      with Cons.prems nn have "insert_loop f d (Suc i) cvs tbl
          (p @ [\<lparr>row_doc_id = d, row_chunk_text = chunk, row_vector_id = vid\<rparr>]) = (Some e, p')"
        by (simp add: q)
      from Cons.IH[OF this] show ?thesis by auto
    qed
  qed
qed

lemma add_document_unfold:
  "add_document encode f d content s =
     (if chunk_text content = [] then (Inr (), s)
      else case insert_loop f d 0 (zip (chunk_text content) (vector_ids s content))
                  (chunks_tbl s) (pending s) of
             (Some e, p) \<Rightarrow>
               if is_psycopg2_error e
               then (Inl e,
                     s\<lparr>index := index s @ zip (vector_ids s content) (map encode (chunk_text content)),
                       pending := []\<rparr>)
               else (Inl e,
                     s\<lparr>index := index s @ zip (vector_ids s content) (map encode (chunk_text content)),
                       pending := p\<rparr>)
           | (None, p) \<Rightarrow>
               if pg_raises f (length (chunk_text content))
               then (Inl PgError,
                     s\<lparr>index := index s @ zip (vector_ids s content) (map encode (chunk_text content)),
                       pending := []\<rparr>)
               else (Inr (),
                     s\<lparr>index := index s @ zip (vector_ids s content) (map encode (chunk_text content)),
                       index_file := Some (index s @ zip (vector_ids s content) (map encode (chunk_text content))),
                       chunks_tbl := chunks_tbl s @ p,
                       pending := []\<rparr>))"
  by (simp add: add_document_def Let_def vector_ids_def save_index_def
           split: prod.splits option.splits)

lemma vector_ids_Nil: "chunk_text content = [] \<Longrightarrow> vector_ids s content = []"
  by (simp add: vector_ids_def arange_def)

lemma add_document_index:
  "index (snd (add_document encode f d content s)) =
     index s @ zip (vector_ids s content) (map encode (chunk_text content))"
  by (simp add: add_document_unfold vector_ids_Nil split: prod.splits option.splits)

lemma add_document_Inl:
  assumes "fst (add_document encode f d content s) = Inl e"
  shows "chunks_tbl (snd (add_document encode f d content s)) = chunks_tbl s"
    and "index_file (snd (add_document encode f d content s)) = index_file s"
    and "chunk_text content \<noteq> []"
    and "is_psycopg2_error e \<Longrightarrow> pending (snd (add_document encode f d content s)) = []"
    and "is_psycopg2_error e \<or> e = ValueError"
    and "e = ValueError \<Longrightarrow> has_nul d \<or> (\<exists>ch \<in> set (chunk_text content). has_nul ch)"
proof -
  show ne: "chunk_text content \<noteq> []"
    using assms by (auto simp: add_document_unfold)
  obtain r p where lp: "insert_loop f d 0 (zip (chunk_text content) (vector_ids s content))
                  (chunks_tbl s) (pending s) = (r, p)" by (cases "insert_loop f d 0
                  (zip (chunk_text content) (vector_ids s content)) (chunks_tbl s) (pending s)")
  show "chunks_tbl (snd (add_document encode f d content s)) = chunks_tbl s"
    using assms ne by (cases r) (auto simp: add_document_unfold lp split: if_splits)
  show "index_file (snd (add_document encode f d content s)) = index_file s"
    using assms ne by (cases r) (auto simp: add_document_unfold lp split: if_splits)
  show "pending (snd (add_document encode f d content s)) = []" if "is_psycopg2_error e"
    using assms ne that by (cases r) (auto simp: add_document_unfold lp split: if_splits)
  have fz: "map fst (zip (chunk_text content) (vector_ids s content)) = chunk_text content"
    by (simp add: length_vector_ids)
  show "is_psycopg2_error e \<or> e = ValueError"
  proof (cases r)
    case None
    with assms ne show ?thesis
      by (auto simp: add_document_unfold lp is_psycopg2_error_def split: if_splits)
  next
    case (Some e')
    with assms ne have "e' = e" by (auto simp: add_document_unfold lp split: if_splits)
    with insert_loop_errors[OF lp[unfolded Some]] show ?thesis by simp
  qed
  show "has_nul d \<or> (\<exists>ch \<in> set (chunk_text content). has_nul ch)" if "e = ValueError"
  proof (cases r)
    case None
    with assms ne that show ?thesis
      by (auto simp: add_document_unfold lp split: if_splits)
  next
    case (Some e')
    with assms ne have "e' = e" by (auto simp: add_document_unfold lp split: if_splits)
    with insert_loop_errors[OF lp[unfolded Some]] that show ?thesis by (simp only: fz)
  qed
qed

lemma add_document_Inr:
  assumes "fst (add_document encode f d content s) = Inr u"
  shows "chunk_text content \<noteq> [] \<Longrightarrow>
           chunks_tbl (snd (add_document encode f d content s))
             = chunks_tbl s @ pending s @ rows_of d (chunk_text content) (vector_ids s content)"
    and "chunk_text content \<noteq> [] \<Longrightarrow> pending (snd (add_document encode f d content s)) = []"
    and "chunk_text content \<noteq> [] \<Longrightarrow>
           index_file (snd (add_document encode f d content s))
             = Some (index (snd (add_document encode f d content s)))"
    and "chunk_text content = [] \<Longrightarrow> snd (add_document encode f d content s) = s"
    and "set (vector_ids s content) \<inter> set (map row_vector_id (visible s)) = {}"
    and "chunk_text content \<noteq> [] \<Longrightarrow> \<not> has_nul d"
    and "\<forall>ch \<in> set (chunk_text content). \<not> has_nul ch"
proof -
  show "chunk_text content = [] \<Longrightarrow> snd (add_document encode f d content s) = s"
    by (simp add: add_document_unfold)
  have mz: "map snd (zip (chunk_text content) (vector_ids s content)) = vector_ids s content"
    and fz: "map fst (zip (chunk_text content) (vector_ids s content)) = chunk_text content"
    by (simp_all add: length_vector_ids)
  have key: "\<exists>p. insert_loop f d 0 (zip (chunk_text content) (vector_ids s content))
                  (chunks_tbl s) (pending s) = (None, p)
        \<and> snd (add_document encode f d content s)
            = s\<lparr>index := index s @ zip (vector_ids s content) (map encode (chunk_text content)),
                index_file := Some (index s @ zip (vector_ids s content) (map encode (chunk_text content))),
                chunks_tbl := chunks_tbl s @ p,
                pending := []\<rparr>"
    if ne: "chunk_text content \<noteq> []"
  proof -
    obtain r p where lp: "insert_loop f d 0 (zip (chunk_text content) (vector_ids s content))
                  (chunks_tbl s) (pending s) = (r, p)" by (cases "insert_loop f d 0
                  (zip (chunk_text content) (vector_ids s content)) (chunks_tbl s) (pending s)")
    from assms ne have "r = None"
      by (cases r) (auto simp: add_document_unfold lp split: if_splits)
    with assms ne lp show ?thesis
      by (auto simp: add_document_unfold split: if_splits)
  qed
  show "chunks_tbl (snd (add_document encode f d content s))
             = chunks_tbl s @ pending s @ rows_of d (chunk_text content) (vector_ids s content)"
    if ne: "chunk_text content \<noteq> []"
  proof -
    from key[OF ne] obtain p where lp: "insert_loop f d 0 (zip (chunk_text content) (vector_ids s content))
                  (chunks_tbl s) (pending s) = (None, p)"
      and st: "chunks_tbl (snd (add_document encode f d content s)) = chunks_tbl s @ p" by auto
    from insert_loop_None[OF lp] have "p = pending s @ rows_of d (chunk_text content) (vector_ids s content)"
      by (simp add: zip_rows_of)
    with st show ?thesis by simp
  qed
  show "pending (snd (add_document encode f d content s)) = []" if ne: "chunk_text content \<noteq> []"
    using key[OF ne] by auto
  show "index_file (snd (add_document encode f d content s))
             = Some (index (snd (add_document encode f d content s)))"
    if ne: "chunk_text content \<noteq> []"
    using key[OF ne] by auto
  show "set (vector_ids s content) \<inter> set (map row_vector_id (visible s)) = {}"
  proof (cases "chunk_text content = []")
    case True
    then show ?thesis by (simp add: vector_ids_Nil)
  next
    case False
    from key[OF False] obtain p where lp: "insert_loop f d 0 (zip (chunk_text content) (vector_ids s content))
                  (chunks_tbl s) (pending s) = (None, p)" by auto
    from insert_loop_None[OF lp] show ?thesis by (simp only: mz visible_def)
  qed
  show "\<not> has_nul d" if ne: "chunk_text content \<noteq> []"
  proof -
    from key[OF ne] obtain p where lp: "insert_loop f d 0 (zip (chunk_text content) (vector_ids s content))
                  (chunks_tbl s) (pending s) = (None, p)" by auto
    have "length (zip (chunk_text content) (vector_ids s content)) = length (chunk_text content)"
      by (simp add: length_vector_ids)
    with ne have "zip (chunk_text content) (vector_ids s content) \<noteq> []"
      by (metis length_0_conv)
    with insert_loop_None[OF lp] show ?thesis by blast
  qed
  show "\<forall>ch \<in> set (chunk_text content). \<not> has_nul ch"
  proof (cases "chunk_text content = []")
    case True
    then show ?thesis by simp
  next
    case False
    from key[OF False] obtain p where lp: "insert_loop f d 0 (zip (chunk_text content) (vector_ids s content))
                  (chunks_tbl s) (pending s) = (None, p)" by auto
    from insert_loop_None[OF lp] show ?thesis unfolding fz by blast
  qed
qed

lemma add_document_NoFault:
  assumes "\<not> has_nul d" and "\<forall>ch \<in> set (chunk_text content). \<not> has_nul ch"
    and "set (vector_ids s content) \<inter> set (map row_vector_id (visible s)) = {}"
  shows "fst (add_document encode NoFault d content s) = Inr ()"
proof (cases "chunk_text content = []")
  case True
  then show ?thesis by (simp add: add_document_unfold)
next
  case False
  have m: "map snd (zip (chunk_text content) (vector_ids s content)) = vector_ids s content"
    and fz: "map fst (zip (chunk_text content) (vector_ids s content)) = chunk_text content"
    by (simp_all add: length_vector_ids)
  have pre1: "\<forall>c \<in> set (map fst (zip (chunk_text content) (vector_ids s content))). \<not> has_nul c"
    using assms(2) by (simp only: fz)
  have pre2: "distinct (map snd (zip (chunk_text content) (vector_ids s content)))"
    by (simp only: m distinct_vector_ids)
  have pre3: "set (map snd (zip (chunk_text content) (vector_ids s content)))
      \<inter> set (map row_vector_id (chunks_tbl s @ pending s)) = {}"
    using assms(3) by (simp only: m visible_def)
  have "insert_loop NoFault d 0 (zip (chunk_text content) (vector_ids s content))
          (chunks_tbl s) (pending s)
      = (None, pending s @ rows_of d (chunk_text content) (vector_ids s content))"
    using insert_loop_ok[OF assms(1) pre1 pre2 pre3, of 0] by (simp only: zip_rows_of)
  then show ?thesis by (simp add: add_document_unfold False pg_raises_def)
qed


lemma ntotal_add_document:
  "ntotal (snd (add_document encode f d content s))
     = ntotal s + int (length (chunk_text content))"
  by (simp add: ntotal_def add_document_index length_vector_ids)

section \<open>Sequences of ingestions and invariant I1\<close>




lemma filter_key_notin: "v \<notin> g ` set xs \<Longrightarrow> filter (\<lambda>y. g y = v) xs = []"
  by (induction xs) auto

lemma filter_key_distinct:
  "distinct (map g xs) \<Longrightarrow> x \<in> set xs \<Longrightarrow> filter (\<lambda>y. g y = g x) xs = [x]"
proof (induction xs)
  case Nil
  then show ?case by simp
next
  case (Cons a xs)
  show ?case
  proof (cases "x = a")
    case True
    have "g a \<notin> g ` set xs" using Cons.prems(1) by simp
    then show ?thesis using True by (simp add: filter_key_notin)
  next
    case False
    then have "x \<in> set xs" using Cons.prems(2) by simp
    moreover from this have "g a \<noteq> g x" using Cons.prems(1) by auto
    ultimately show ?thesis using Cons.IH Cons.prems(1) by simp
  qed
qed

lemma filter_key_in: "x \<in> set xs \<Longrightarrow> filter (\<lambda>y. g y = g x) xs \<noteq> []"
  by (induction xs) auto

lemma once_distinct:
  "\<forall>x \<in> set xs. length (filter (\<lambda>y. g y = g x) xs) = 1 \<Longrightarrow> distinct (map g xs)"
proof (induction xs)
  case Nil
  then show ?case by simp
next
  case (Cons a xs)
  from Cons.prems have "length (filter (\<lambda>y. g y = g a) (a # xs)) = 1" by simp
  then have e: "filter (\<lambda>y. g y = g a) xs = []" by simp
  have fresh: "g a \<notin> g ` set xs"
  proof
    assume "g a \<in> g ` set xs"
    then obtain x where "x \<in> set xs" "g x = g a" by auto
    then have "x \<in> set (filter (\<lambda>y. g y = g a) xs)" by simp
    with e show False by simp
  qed
  have "\<forall>x \<in> set xs. length (filter (\<lambda>y. g y = g x) xs) = 1"
  proof
    fix x assume x: "x \<in> set xs"
    then have "g a \<noteq> g x" using fresh by auto
    moreover have "length (filter (\<lambda>y. g y = g x) (a # xs)) = 1" using Cons.prems x by simp
    ultimately show "length (filter (\<lambda>y. g y = g x) xs) = 1" by simp
  qed
  from Cons.IH[OF this] fresh show ?case by simp
qed

lemma I1_iff:
  "I1 s \<longleftrightarrow>
     distinct (map fst (index s)) \<and> distinct (map row_vector_id (chunks_tbl s))
     \<and> set (map fst (index s)) = set (map row_vector_id (chunks_tbl s))"
proof
  assume i1: "I1 s"
  then have a: "\<forall>e \<in> set (index s). length (filter (\<lambda>r. row_vector_id r = fst e) (chunks_tbl s)) = 1"
    and b: "\<forall>r \<in> set (chunks_tbl s). length (filter (\<lambda>e. fst e = row_vector_id r) (index s)) = 1"
    by (auto simp: I1_def list_all_iff)
  have sub1: "set (map fst (index s)) \<subseteq> set (map row_vector_id (chunks_tbl s))"
  proof
    fix v assume "v \<in> set (map fst (index s))"
    then obtain e where e: "e \<in> set (index s)" "v = fst e" by auto
    show "v \<in> set (map row_vector_id (chunks_tbl s))"
    proof (rule ccontr)
      assume "\<not> ?thesis"
      then have "filter (\<lambda>r. row_vector_id r = v) (chunks_tbl s) = []"
        by (intro filter_key_notin) simp
      with a e show False by fastforce
    qed
  qed
  have sub2: "set (map row_vector_id (chunks_tbl s)) \<subseteq> set (map fst (index s))"
  proof
    fix v assume "v \<in> set (map row_vector_id (chunks_tbl s))"
    then obtain r where r: "r \<in> set (chunks_tbl s)" "v = row_vector_id r" by auto
    show "v \<in> set (map fst (index s))"
    proof (rule ccontr)
      assume "\<not> ?thesis"
      then have "filter (\<lambda>e. fst e = v) (index s) = []"
        by (intro filter_key_notin) simp
      with b r show False by fastforce
    qed
  qed
  have "\<forall>r \<in> set (chunks_tbl s).
          length (filter (\<lambda>y. row_vector_id y = row_vector_id r) (chunks_tbl s)) = 1"
  proof
    fix r assume "r \<in> set (chunks_tbl s)"
    then have "row_vector_id r \<in> set (map fst (index s))" using sub2 by auto
    then obtain e where "e \<in> set (index s)" "fst e = row_vector_id r" by auto
    with a show "length (filter (\<lambda>y. row_vector_id y = row_vector_id r) (chunks_tbl s)) = 1"
      by metis
  qed
  then have d2: "distinct (map row_vector_id (chunks_tbl s))" by (rule once_distinct)
  have "\<forall>e \<in> set (index s). length (filter (\<lambda>y. fst y = fst e) (index s)) = 1"
  proof
    fix e assume "e \<in> set (index s)"
    then have "fst e \<in> set (map row_vector_id (chunks_tbl s))" using sub1 by auto
    then obtain r where "r \<in> set (chunks_tbl s)" "row_vector_id r = fst e" by auto
    with b show "length (filter (\<lambda>y. fst y = fst e) (index s)) = 1"
      by metis
  qed
  then have d1: "distinct (map fst (index s))" by (rule once_distinct)
  from d1 d2 sub1 sub2
  show "distinct (map fst (index s)) \<and> distinct (map row_vector_id (chunks_tbl s))
     \<and> set (map fst (index s)) = set (map row_vector_id (chunks_tbl s))" by blast
next
  assume r: "distinct (map fst (index s)) \<and> distinct (map row_vector_id (chunks_tbl s))
     \<and> set (map fst (index s)) = set (map row_vector_id (chunks_tbl s))"
  have "length (filter (\<lambda>r. row_vector_id r = fst e) (chunks_tbl s)) = 1"
    if "e \<in> set (index s)" for e
  proof -
    from that r have "fst e \<in> set (map row_vector_id (chunks_tbl s))" by auto
    then obtain x where x: "x \<in> set (chunks_tbl s)" "row_vector_id x = fst e" by auto
    from filter_key_distinct[of row_vector_id "chunks_tbl s" x] r x show ?thesis by simp
  qed
  moreover have "length (filter (\<lambda>e. fst e = row_vector_id x) (index s)) = 1"
    if "x \<in> set (chunks_tbl s)" for x
  proof -
    from that r have "row_vector_id x \<in> set (map fst (index s))" by auto
    then obtain e where e: "e \<in> set (index s)" "fst e = row_vector_id x" by auto
    from filter_key_distinct[of fst "index s" e] r e show ?thesis by simp
  qed
  ultimately show "I1 s" by (auto simp: I1_def list_all_iff)
qed


lemma ids_rows_of:
  "map row_vector_id (rows_of d (chunk_text content) (vector_ids s content)) = vector_ids s content"
  by (simp add: rows_of_def length_vector_ids split_beta o_def map_snd_zip)

lemma ids_new_entries:
  "map fst (zip (vector_ids s content) (map encode (chunk_text content))) = vector_ids s content"
  by (simp add: length_vector_ids)

lemma add_document_Inr_clean:
  assumes clean: "pending s = []" and ok: "fst (add_document encode f d content s) = Inr u"
  shows "chunks_tbl (snd (add_document encode f d content s))
           = chunks_tbl s @ rows_of d (chunk_text content) (vector_ids s content)"
    and "pending (snd (add_document encode f d content s)) = []"
    and "set (vector_ids s content) \<inter> set (map row_vector_id (chunks_tbl s)) = {}"
proof -
  show "chunks_tbl (snd (add_document encode f d content s))
           = chunks_tbl s @ rows_of d (chunk_text content) (vector_ids s content)"
  proof (cases "chunk_text content = []")
    case True
    then show ?thesis by (simp add: add_document_Inr(4)[OF ok] vector_ids_Nil rows_of_def)
  next
    case False
    then show ?thesis by (simp add: add_document_Inr(1)[OF ok] clean)
  qed
  show "pending (snd (add_document encode f d content s)) = []"
  proof (cases "chunk_text content = []")
    case True
    then show ?thesis by (simp add: add_document_Inr(4)[OF ok] clean)
  next
    case False
    then show ?thesis by (rule add_document_Inr(2)[OF ok])
  qed
  show "set (vector_ids s content) \<inter> set (map row_vector_id (chunks_tbl s)) = {}"
    using add_document_Inr(5)[OF ok] by (simp add: visible_def clean)
qed

lemma I1_add_document:
  assumes i1: "I1 s" and clean: "pending s = []"
    and ok: "fst (add_document encode f d content s) = Inr u"
  shows "I1 (snd (add_document encode f d content s))"
proof -
  let ?s' = "snd (add_document encode f d content s)"
  from i1 have d1: "distinct (map fst (index s))"
    and d2: "distinct (map row_vector_id (chunks_tbl s))"
    and eq: "set (map fst (index s)) = set (map row_vector_id (chunks_tbl s))"
    by (simp_all add: I1_iff)
  have ix: "map fst (index ?s') = map fst (index s) @ vector_ids s content"
    by (simp only: add_document_index map_append ids_new_entries)
  have tb: "map row_vector_id (chunks_tbl ?s') = map row_vector_id (chunks_tbl s) @ vector_ids s content"
    by (simp only: add_document_Inr_clean(1)[OF clean ok] map_append ids_rows_of)
  have fresh: "set (vector_ids s content) \<inter> set (map row_vector_id (chunks_tbl s)) = {}"
    by (rule add_document_Inr_clean(3)[OF clean ok])
  have "distinct (map fst (index ?s'))"
    unfolding ix using d1 fresh eq distinct_vector_ids[of s content] by auto
  moreover have "distinct (map row_vector_id (chunks_tbl ?s'))"
    unfolding tb using d2 fresh distinct_vector_ids[of s content] by auto
  moreover have "set (map fst (index ?s')) = set (map row_vector_id (chunks_tbl ?s'))"
    unfolding ix tb using eq by simp
  ultimately show ?thesis by (simp only: I1_iff)
qed

lemma ingest_Cons:
  "ingest encode ((d, content) # docs) s0 =
     (case fst (add_document encode NoFault d content s0) of
        Inl e \<Rightarrow> Inl e
      | Inr u \<Rightarrow> ingest encode docs (snd (add_document encode NoFault d content s0)))"
  by (simp split: prod.splits sum.splits)

lemma ingest_Cons_Inr:
  assumes "ingest encode ((d, content) # docs) s0 = Inr s"
  shows "fst (add_document encode NoFault d content s0) = Inr ()"
    and "ingest encode docs (snd (add_document encode NoFault d content s0)) = Inr s"
  using assms by (auto split: prod.splits sum.splits)

lemma ingest_append:
  "ingest encode (xs @ ys) s0 =
     (case ingest encode xs s0 of Inl e \<Rightarrow> Inl e | Inr s1 \<Rightarrow> ingest encode ys s1)"
proof (induction xs arbitrary: s0)
  case Nil
  show ?case by simp
next
  case (Cons p xs)
  obtain d content where p: "p = (d, content)" by (cases p)
  show ?case
  proof (cases "fst (add_document encode NoFault d content s0)")
    case (Inl e)
    then show ?thesis unfolding p append_Cons ingest_Cons by simp
  next
    case (Inr u)
    then show ?thesis unfolding p append_Cons ingest_Cons by (simp add: Cons.IH)
  qed
qed

lemma ingest_I1:
  "I1 s0 \<Longrightarrow> pending s0 = [] \<Longrightarrow> ingest encode docs s0 = Inr s \<Longrightarrow> I1 s \<and> pending s = []"
proof (induction docs arbitrary: s0)
  case Nil
  then show ?case by simp
next
  case (Cons p docs)
  obtain d content where p: "p = (d, content)" by (cases p)
  note r = ingest_Cons_Inr[OF Cons.prems(3)[unfolded p]]
  from I1_add_document[OF Cons.prems(1,2) r(1)]
  have a: "I1 (snd (add_document encode NoFault d content s0))" .
  from add_document_Inr_clean(2)[OF Cons.prems(2) r(1)]
  have b: "pending (snd (add_document encode NoFault d content s0)) = []" .
  from Cons.IH[OF a b r(2)] show ?case .
qed

lemma add_document_mono:
  assumes ok: "fst (add_document encode f d content s) = Inr u"
  shows "set (index s) \<subseteq> set (index (snd (add_document encode f d content s)))"
    and "set (chunks_tbl s) \<subseteq> set (chunks_tbl (snd (add_document encode f d content s)))"
proof -
  show "set (index s) \<subseteq> set (index (snd (add_document encode f d content s)))"
    by (simp add: add_document_index)
  show "set (chunks_tbl s) \<subseteq> set (chunks_tbl (snd (add_document encode f d content s)))"
  proof (cases "chunk_text content = []")
    case True
    then show ?thesis by (simp add: add_document_Inr(4)[OF ok])
  next
    case False
    then show ?thesis by (simp add: add_document_Inr(1)[OF ok])
  qed
qed

lemma ingest_mono:
  "ingest encode docs s0 = Inr s \<Longrightarrow>
     set (index s0) \<subseteq> set (index s) \<and> set (chunks_tbl s0) \<subseteq> set (chunks_tbl s)"
proof (induction docs arbitrary: s0)
  case Nil
  then show ?case by simp
next
  case (Cons p docs)
  obtain d content where p: "p = (d, content)" by (cases p)
  note r = ingest_Cons_Inr[OF Cons.prems[unfolded p]]
  from Cons.IH[OF r(2)] add_document_mono[OF r(1)] show ?case by blast
qed

lemma ntotal_nonneg: "0 \<le> ntotal s"
  by (simp add: ntotal_def)

lemma nth_vector_ids:
  "j < length (chunk_text content) \<Longrightarrow> vector_ids s content ! j = ntotal s + int j"
  by (simp add: vector_ids_def arange_def)

lemma add_document_stores:
  assumes ok: "fst (add_document encode f d content s) = Inr u"
    and j: "j < length (chunk_text content)"
  shows "(ntotal s + int j, encode (chunk_text content ! j))
           \<in> set (index (snd (add_document encode f d content s)))"
    and "\<lparr>row_doc_id = d, row_chunk_text = chunk_text content ! j,
           row_vector_id = ntotal s + int j\<rparr>
           \<in> set (chunks_tbl (snd (add_document encode f d content s)))"
proof -
  have ne: "chunk_text content \<noteq> []" using j by auto
  have jv: "j < length (vector_ids s content)" using j by (simp add: length_vector_ids)
  have "(ntotal s + int j, encode (chunk_text content ! j))
      = zip (vector_ids s content) (map encode (chunk_text content)) ! j"
    using j jv by (simp add: nth_vector_ids)
  moreover have "j < length (zip (vector_ids s content) (map encode (chunk_text content)))"
    using j jv by simp
  ultimately have a: "(ntotal s + int j, encode (chunk_text content ! j))
      \<in> set (zip (vector_ids s content) (map encode (chunk_text content)))"
    by (metis nth_mem)
  then show "(ntotal s + int j, encode (chunk_text content ! j))
           \<in> set (index (snd (add_document encode f d content s)))"
    by (simp add: add_document_index)
  have "\<lparr>row_doc_id = d, row_chunk_text = chunk_text content ! j, row_vector_id = ntotal s + int j\<rparr>
      = rows_of d (chunk_text content) (vector_ids s content) ! j"
    using j jv by (simp add: rows_of_def nth_vector_ids)
  moreover have "j < length (rows_of d (chunk_text content) (vector_ids s content))"
    using j jv by (simp add: rows_of_def)
  ultimately have b: "\<lparr>row_doc_id = d, row_chunk_text = chunk_text content ! j,
        row_vector_id = ntotal s + int j\<rparr>
      \<in> set (rows_of d (chunk_text content) (vector_ids s content))"
    by (metis nth_mem)
  then show "\<lparr>row_doc_id = d, row_chunk_text = chunk_text content ! j,
           row_vector_id = ntotal s + int j\<rparr>
           \<in> set (chunks_tbl (snd (add_document encode f d content s)))"
    by (simp add: add_document_Inr(1)[OF ok ne])
qed

lemma ingest_succeeds:
  "pending s0 = [] \<Longrightarrow> \<forall>r \<in> set (chunks_tbl s0). row_vector_id r < ntotal s0 \<Longrightarrow>
   \<forall>(d, content) \<in> set docs. \<not> has_nul d \<and> (\<forall>ch \<in> set (chunk_text content). \<not> has_nul ch) \<Longrightarrow>
     \<exists>s. ingest encode docs s0 = Inr s"
proof (induction docs arbitrary: s0)
  case Nil
  show ?case by simp
next
  case (Cons p docs)
  obtain d content where p: "p = (d, content)" by (cases p)
  let ?s' = "snd (add_document encode NoFault d content s0)"
  from Cons.prems(3) have nn: "\<not> has_nul d" "\<forall>ch \<in> set (chunk_text content). \<not> has_nul ch"
    and rest: "\<forall>(d, content) \<in> set docs. \<not> has_nul d \<and> (\<forall>ch \<in> set (chunk_text content). \<not> has_nul ch)"
    by (simp_all add: p)
  have "set (vector_ids s0 content) \<inter> set (map row_vector_id (visible s0)) = {}"
    using Cons.prems(1,2) by (fastforce simp: set_vector_ids visible_def)
  from add_document_NoFault[OF nn this]
  have ok: "fst (add_document encode NoFault d content s0) = Inr ()" .
  have cl: "pending ?s' = []" by (rule add_document_Inr_clean(2)[OF Cons.prems(1) ok])
  have "\<forall>r \<in> set (chunks_tbl ?s'). row_vector_id r < ntotal ?s'"
  proof
    fix r assume "r \<in> set (chunks_tbl ?s')"
    then have "row_vector_id r \<in> set (map row_vector_id (chunks_tbl ?s'))" by simp
    then have "row_vector_id r \<in> set (map row_vector_id (chunks_tbl s0)) \<union> set (vector_ids s0 content)"
      by (simp only: add_document_Inr_clean(1)[OF Cons.prems(1) ok] map_append set_append ids_rows_of)
    then show "row_vector_id r < ntotal ?s'"
      using Cons.prems(2) by (auto simp: ntotal_add_document set_vector_ids)
  qed
  from Cons.IH[OF cl this rest] obtain s where "ingest encode docs ?s' = Inr s" ..
  then show ?case using ok by (intro exI[of _ s]) (simp only: p ingest_Cons sum.case)
qed

section \<open>Evaluation on small inputs\<close>

lemma stride_val: "stride = 384"
  by (simp add: stride_def CHUNK_SIZE_def CHUNK_OVERLAP_def)

lemma split_a: "split ''a'' = [''a'']"
  by (simp add: split_def is_space_def)

lemma init_fresh:
  "index (init None []) = []" "index_file (init None []) = None"
  "chunks_tbl (init None []) = []" "pending (init None []) = []"
  by (simp_all add: init_def load_index_def Let_def)

lemma init_fresh_eq:
  "init None [] = \<lparr>index = [], index_file = None, chunks_tbl = [], pending = []\<rparr>"
  by (simp add: init_def load_index_def Let_def)


section \<open>Vector id allocation\<close>



section \<open>The number of chunks\<close>

text \<open>
  The count of the specification, the ceiling of \<open>max (T - 128) 0 / 384\<close>, is not the
  number of chunks of the one-token text \<open>a\<close>: the loop yields one chunk, the formula
  none.
\<close>

theorem chunk_count_counterexample:
  "length (chunk_text ''a'') \<noteq> spec_chunk_count (length (split ''a''))"
proof -
  have "chunk_text ''a'' = [''a'']"
    by (simp add: chunk_text_def split_a chunk_loop_step chunk_loop_stop stride_val
          CHUNK_SIZE_def)
  moreover have "spec_chunk_count (length (split ''a'')) = 0"
    by (simp add: split_a spec_chunk_count_def CHUNK_OVERLAP_def stride_val)
  ultimately show ?thesis by simp
qed

text \<open>
  Claim C5, amended. For a text of \<open>T\<close> tokens the chunker yields the ceiling of
  \<open>T / 384\<close> chunks; chunk \<open>j\<close> joins the at most 512 tokens from position \<open>384 * j\<close> on,
  so the last windows may be shorter than 512 tokens; no token gives no chunk.
\<close>

theorem chunk_text_windows:
  "length (chunk_text text) = (length (split text) + 383) div 384
   \<and> chunk_text text =
       map (\<lambda>j. join (take 512 (drop (j * 384) (split text))))
           [0..<(length (split text) + 383) div 384]
   \<and> (split text = [] \<longrightarrow> chunk_text text = [])"
proof -
  have s1: "stride - 1 = 383" by (simp add: stride_val)
  have w: "chunk_text text =
       map (\<lambda>j. join (take 512 (drop (j * 384) (split text))))
           [0..<(length (split text) + 383) div 384]"
    using chunk_loop_windows[of "split text" 0]
    by (simp add: chunk_text_def s1 stride_val CHUNK_SIZE_def)
  have "length (chunk_text text) = (length (split text) + 383) div 384"
    by (subst w) simp
  moreover have "split text = [] \<longrightarrow> chunk_text text = []"
    by (subst w) simp
  ultimately show ?thesis using w by blast
qed

theorem chunk_text_windows_witness:
  "length (chunk_text ''the sky is blue'') = 1
   \<and> chunk_text ''the sky is blue'' = [''the sky is blue'']
   \<and> split [] = [] \<and> chunk_text [] = []"
  using chunk_text_windows[of "''the sky is blue''"] chunk_text_windows[of "[]"]
  by (simp add: split_def is_space_def)


section \<open>Empty content\<close>

lemma one_chunk_example:
  "add_document length NoFault ''d1'' ''ab'' (init None [])
     = (Inr (), \<lparr>index = [(0, 2::nat)], index_file = Some [(0, 2)],
                 chunks_tbl = [\<lparr>row_doc_id = ''d1'', row_chunk_text = ''ab'', row_vector_id = 0\<rparr>],
                 pending = []\<rparr>)"
  by code_simp

lemma no_chunk_example:
  "add_document length NoFault ''d1'' [] (init None [] :: nat manager) = (Inr (), init None [])"
  by code_simp

text \<open>
  The call with the empty content, which adds no chunk, and a call that adds one chunk
  return the same value, and the endpoint answers both with the same response: what is
  returned tells no count of added chunks, so no count 0 either.
\<close>

theorem added_count_counterexample:
  "fst (add_document length NoFault ''d1'' [] (init None [] :: nat manager))
     = fst (add_document length NoFault ''d1'' ''ab'' (init None [] :: nat manager))
   \<and> fst (add_document_endpoint length NoFault ''d1'' [] (init None [] :: nat manager))
     = fst (add_document_endpoint length NoFault ''d1'' ''ab'' (init None [] :: nat manager))
   \<and> length (index (snd (add_document length NoFault ''d1'' [] (init None [] :: nat manager)))) = 0
   \<and> length (index (snd (add_document length NoFault ''d1'' ''ab'' (init None [] :: nat manager)))) = 1"
  by (simp add: add_document_endpoint_def one_chunk_example no_chunk_example init_fresh)

text \<open>
  Claim C8, amended. \<^verbatim>\<open>add_document\<close> on the empty content returns normally, with
  \<^verbatim>\<open>None\<close> and no count of added chunks, and the endpoint answers with its fixed status
  and message; the call leaves the index, the index file, the committed rows and the
  pending rows as they were, for every document id and whatever the state of the
  database.
\<close>

theorem add_document_empty_content:
  "add_document encode f d [] s = (Inr (), s)
   \<and> add_document_endpoint encode f d [] s
       = (Inr \<lparr>status = ''ok'',
               message = ''Document '' @ [CHR 0x27] @ d @ [CHR 0x27]
                           @ '' added successfully.''\<rparr>, s)
   \<and> index (snd (add_document encode f d [] s)) = index s
   \<and> index_file (snd (add_document encode f d [] s)) = index_file s
   \<and> chunks_tbl (snd (add_document encode f d [] s)) = chunks_tbl s
   \<and> pending (snd (add_document encode f d [] s)) = pending s"
proof -
  have "chunk_text [] = []"
    by (simp add: chunk_text_def split_def chunk_loop_stop)
  then have "add_document encode f d [] s = (Inr (), s)"
    by (simp add: add_document_unfold)
  then show ?thesis by (simp add: add_document_endpoint_def)
qed

theorem add_document_empty_content_witness:
  "add_document length (FailAt 0) ''d1'' [] (init None [] :: nat manager) = (Inr (), init None [])
   \<and> fst (add_document_endpoint length (FailAt 0) ''d1'' [] (init None [] :: nat manager))
       = Inr \<lparr>status = ''ok'',
              message = ''Document '' @ [CHR 0x27] @ ''d1'' @ [CHR 0x27]
                           @ '' added successfully.''\<rparr>"
  using add_document_empty_content[of length "FailAt 0" "''d1''" "init None [] :: nat manager"]
  by simp

section \<open>Search is read-only\<close>

text \<open>
  Claim C10. For every query, every \<open>k\<close> and every answer of the vector index, a
  \<^verbatim>\<open>search\<close> call leaves the index, its count, the index file and the committed rows
  unchanged, both when it returns and when it raises.
\<close>

theorem search_read_only:
  "index (snd (search encode knn f query k s)) = index s
   \<and> ntotal (snd (search encode knn f query k s)) = ntotal s
   \<and> index_file (snd (search encode knn f query k s)) = index_file s
   \<and> chunks_tbl (snd (search encode knn f query k s)) = chunks_tbl s"
  by (simp add: search_join Let_def ntotal_def)

theorem search_read_only_witness:
  "search length (\<lambda>ix q k. [(2::nat, 0)]) (FailAt 0) ''q'' 1
      \<lparr>index = [(0, 2)], index_file = None,
       chunks_tbl = [\<lparr>row_doc_id = ''d'', row_chunk_text = ''a'', row_vector_id = 0\<rparr>],
       pending = []\<rparr>
    = (Inl PgError,
      \<lparr>index = [(0, 2)], index_file = None,
       chunks_tbl = [\<lparr>row_doc_id = ''d'', row_chunk_text = ''a'', row_vector_id = 0\<rparr>],
       pending = []\<rparr>)
   \<and> search length (\<lambda>ix q k. [(2::nat, 0)]) NoFault ''q'' 1
      \<lparr>index = [(0, 2)], index_file = None,
       chunks_tbl = [\<lparr>row_doc_id = ''d'', row_chunk_text = ''a'', row_vector_id = 0\<rparr>],
       pending = []\<rparr>
    = (Inr [\<lparr>res_doc_id = ''d'', res_chunk_text = ''a'', score = 2\<rparr>],
      \<lparr>index = [(0, 2)], index_file = None,
       chunks_tbl = [\<lparr>row_doc_id = ''d'', row_chunk_text = ''a'', row_vector_id = 0\<rparr>],
       pending = []\<rparr>)"
  using search_read_only[of length "\<lambda>ix q k. [(2::nat, 0)]" "FailAt 0" "''q''" 1
      "\<lparr>index = [(0, 2)], index_file = None,
       chunks_tbl = [\<lparr>row_doc_id = ''d'', row_chunk_text = ''a'', row_vector_id = 0\<rparr>],
       pending = []\<rparr>"]
    search_read_only[of length "\<lambda>ix q k. [(2::nat, 0)]" NoFault "''q''" 1
      "\<lparr>index = [(0, 2)], index_file = None,
       chunks_tbl = [\<lparr>row_doc_id = ''d'', row_chunk_text = ''a'', row_vector_id = 0\<rparr>],
       pending = []\<rparr>"]
  by (simp add: search_def pg_raises_def visible_def)

section \<open>Invariant I1 along successful ingestions\<close>

lemma find_key_distinct:
  "distinct (map g xs) \<Longrightarrow> x \<in> set xs \<Longrightarrow> find (\<lambda>y. g y = g x) xs = Some x"
  by (induction xs) (auto simp: rev_image_eqI)

lemma join_rows_single:
  assumes "distinct (map row_vector_id tbl)" and "r \<in> set tbl" and "row_vector_id r \<noteq> - 1"
  shows "join_rows tbl [(dist, row_vector_id r)]
           = [\<lparr>res_doc_id = row_doc_id r, res_chunk_text = row_chunk_text r, score = dist\<rparr>]"
proof -
  have "distinct (map row_vector_id (rev tbl))"
    using assms(1) by (simp only: rev_map[symmetric] distinct_rev)
  moreover have "r \<in> set (rev tbl)" using assms(2) by simp
  ultimately have "find (\<lambda>y. row_vector_id y = row_vector_id r) (rev tbl) = Some r"
    by (rule find_key_distinct)
  then show ?thesis using assms(3) by (simp add: join_rows_def)
qed

lemma join_rows_mem:
  "(dist, v) \<in> set nbrs \<Longrightarrow> set (join_rows tbl [(dist, v)]) \<subseteq> set (join_rows tbl nbrs)"
  by (auto simp: join_rows_def split: if_splits option.splits)

lemma join_rows_sentinel:
  "filter (\<lambda>vid. vid \<noteq> - 1) (map snd nbrs) = [] \<Longrightarrow> join_rows tbl nbrs = []"
  by (induction nbrs) (auto simp: join_rows_def split: if_splits)

lemma search_NoFault:
  "1 \<le> k \<Longrightarrow> search encode knn NoFault query k s
     = (Inr (join_rows (visible s) (knn (index s) (encode query) k)), s)"
  by (simp add: search_join Let_def pg_raises_def join_rows_sentinel)

lemma I1_fresh: "I1 (init None [])"
  by (simp add: I1_def init_fresh)

lemma ingest_once_example:
  "ingest length [(''d1'', ''the sky'')] (init None [])
     = Inr \<lparr>index = [(0, 7::nat)], index_file = Some [(0, 7)],
            chunks_tbl = [\<lparr>row_doc_id = ''d1'', row_chunk_text = ''the sky'', row_vector_id = 0\<rparr>],
            pending = []\<rparr>"
  by code_simp

lemma ingest_twice_example:
  "ingest length [(''d1'', ''the sky''), (''d1'', ''the sky'')] (init None [])
     = Inr \<lparr>index = [(0, 7::nat), (1, 7)], index_file = Some [(0, 7), (1, 7)],
            chunks_tbl = [\<lparr>row_doc_id = ''d1'', row_chunk_text = ''the sky'', row_vector_id = 0\<rparr>,
                          \<lparr>row_doc_id = ''d1'', row_chunk_text = ''the sky'', row_vector_id = 1\<rparr>],
            pending = []\<rparr>"
  by code_simp

lemma chunk_text_example: "chunk_text ''the sky'' = [''the sky'']"
  by code_simp

text \<open>
  Claim C2. Start from a manager that satisfies I1 and has no pending row, and run
  \<^verbatim>\<open>add_document\<close> calls none of which raises. Then I1 holds again: every vector id of the
  index has exactly one row and the vector id of every row exactly one vector. Moreover,
  for every call of the sequence and every position \<open>j\<close> among the chunks of its
  content, the id the call allocated for that chunk, \<open>ntotal\<close> before the call plus \<open>j\<close>,
  is the id under which the index holds the chunk's embedding, the table has exactly one
  row with that id, and this row carries the call's document id and the chunk's text;
  and whenever a later \<^verbatim>\<open>search\<close> for at least one neighbour, whose \<^verbatim>\<open>SELECT\<close> does not
  fail, gets that id from the vector index, its results contain the document's id and
  the chunk's text with the distance returned for it. The freshly initialised manager
  satisfies I1 and has no pending row, and from it no call of a sequence raises when no
  document id and no chunk contains the character NUL.
\<close>

theorem join_completeness:
  assumes "I1 (s0 :: 'v manager)" and "pending s0 = []" and "ingest encode docs s0 = Inr s"
  shows "I1 s
    \<and> (\<forall>pre d content post s1 j.
          docs = pre @ (d, content) # post \<and> ingest encode pre s0 = Inr s1
            \<and> j < length (chunk_text content) \<longrightarrow>
          (ntotal s1 + int j, encode (chunk_text content ! j)) \<in> set (index s)
          \<and> filter (\<lambda>r. row_vector_id r = ntotal s1 + int j) (chunks_tbl s)
              = [\<lparr>row_doc_id = d, row_chunk_text = chunk_text content ! j,
                  row_vector_id = ntotal s1 + int j\<rparr>]
          \<and> (\<forall>(knn :: (int \<times> 'v) list \<Rightarrow> 'v \<Rightarrow> int \<Rightarrow> ('d \<times> int) list) query k dist.
                1 \<le> k \<and> (dist, ntotal s1 + int j) \<in> set (knn (index s) (encode query) k) \<longrightarrow>
                (\<exists>rs. fst (search encode knn NoFault query k s) = Inr rs
                   \<and> \<lparr>res_doc_id = d, res_chunk_text = chunk_text content ! j, score = dist\<rparr>
                       \<in> set rs)))
    \<and> I1 (init None [] :: 'v manager)
    \<and> pending (init None [] :: 'v manager) = []
    \<and> ((\<forall>(d, content) \<in> set docs.
            \<not> has_nul d \<and> (\<forall>ch \<in> set (chunk_text content). \<not> has_nul ch)) \<longrightarrow>
         (\<exists>s'. ingest encode docs (init None []) = Inr s'))"
proof (intro conjI allI impI)
  from ingest_I1[OF assms] show "I1 s" by simp
  show "I1 (init None [] :: 'v manager)" by (rule I1_fresh)
  show "pending (init None [] :: 'v manager) = []" by (rule init_fresh)
  show "\<exists>s'. ingest encode docs (init None []) = Inr s'"
    if "\<forall>(d, content) \<in> set docs.
            \<not> has_nul d \<and> (\<forall>ch \<in> set (chunk_text content). \<not> has_nul ch)"
    using _ _ that by (rule ingest_succeeds) (simp_all add: init_fresh)
next
  fix pre d content post s1 j
  assume h: "docs = pre @ (d, content) # post \<and> ingest encode pre s0 = Inr s1
            \<and> j < length (chunk_text content)"
  then have dc: "docs = pre @ (d, content) # post" and p1: "ingest encode pre s0 = Inr s1"
    and j: "j < length (chunk_text content)" by simp_all
  from ingest_I1[OF assms] have i1: "I1 s" and cl: "pending s = []" by simp_all
  from assms(3) have "ingest encode ((d, content) # post) s1 = Inr s"
    unfolding dc ingest_append by (simp add: p1)
  note r = ingest_Cons_Inr[OF this]
  let ?v = "ntotal s1 + int j"
  let ?ch = "chunk_text content ! j"
  let ?row = "\<lparr>row_doc_id = d, row_chunk_text = ?ch, row_vector_id = ?v\<rparr>"
  from add_document_stores[OF r(1) j] ingest_mono[OF r(2)]
  have ix: "(?v, encode ?ch) \<in> set (index s)" and rw: "?row \<in> set (chunks_tbl s)" by blast+
  from i1 have dist: "distinct (map row_vector_id (chunks_tbl s))" by (simp add: I1_iff)
  have nn: "0 \<le> ?v" using ntotal_nonneg[of s1] by simp
  show "(?v, encode ?ch) \<in> set (index s)" by (rule ix)
  show "filter (\<lambda>r. row_vector_id r = ?v) (chunks_tbl s) = [?row]"
    using filter_key_distinct[OF dist rw] by simp
  have jr: "join_rows (visible s) [(dist, ?v)]
          = [\<lparr>res_doc_id = d, res_chunk_text = ?ch, score = dist\<rparr>]" for dist :: 'd
    using join_rows_single[OF dist rw, of dist] nn by (simp add: visible_def cl)
  fix knn :: "(int \<times> 'v) list \<Rightarrow> 'v \<Rightarrow> int \<Rightarrow> ('d \<times> int) list"
  fix query k dist
  assume "1 \<le> k \<and> (dist, ?v) \<in> set (knn (index s) (encode query) k)"
  then have k: "1 \<le> k" and n: "(dist, ?v) \<in> set (knn (index s) (encode query) k)" by simp_all
  from join_rows_mem[OF n, of "visible s"]
  have "\<lparr>res_doc_id = d, res_chunk_text = ?ch, score = dist\<rparr>
          \<in> set (join_rows (visible s) (knn (index s) (encode query) k))"
    by (simp add: jr)
  then show "\<exists>rs. fst (search encode knn NoFault query k s) = Inr rs
                   \<and> \<lparr>res_doc_id = d, res_chunk_text = ?ch, score = dist\<rparr> \<in> set rs"
    by (simp add: search_NoFault[OF k])
qed

theorem join_completeness_witness:
  "I1 (init None [] :: nat manager) \<and> pending (init None [] :: nat manager) = []
   \<and> ingest length [(''d1'', ''the sky''), (''d1'', ''the sky'')] (init None [])
     = Inr \<lparr>index = [(0, 7::nat), (1, 7)], index_file = Some [(0, 7), (1, 7)],
            chunks_tbl = [\<lparr>row_doc_id = ''d1'', row_chunk_text = ''the sky'', row_vector_id = 0\<rparr>,
                          \<lparr>row_doc_id = ''d1'', row_chunk_text = ''the sky'', row_vector_id = 1\<rparr>],
            pending = []\<rparr>
   \<and> ingest length [(''d1'', ''the sky'')] (init None [])
     = Inr \<lparr>index = [(0, 7::nat)], index_file = Some [(0, 7)],
            chunks_tbl = [\<lparr>row_doc_id = ''d1'', row_chunk_text = ''the sky'', row_vector_id = 0\<rparr>],
            pending = []\<rparr>
   \<and> (0::nat) < length (chunk_text ''the sky'') \<and> (1::int) \<le> 2
   \<and> filter (\<lambda>r. row_vector_id r = 1)
        [\<lparr>row_doc_id = ''d1'', row_chunk_text = ''the sky'', row_vector_id = 0\<rparr>,
         \<lparr>row_doc_id = ''d1'', row_chunk_text = ''the sky'', row_vector_id = 1\<rparr>]
       = [\<lparr>row_doc_id = ''d1'', row_chunk_text = ''the sky'', row_vector_id = 1\<rparr>]
   \<and> (\<exists>rs. fst (search length (\<lambda>ix q k. [(3::nat, 1)]) NoFault ''sky'' 2
               \<lparr>index = [(0, 7::nat), (1, 7)], index_file = Some [(0, 7), (1, 7)],
                chunks_tbl = [\<lparr>row_doc_id = ''d1'', row_chunk_text = ''the sky'', row_vector_id = 0\<rparr>,
                          \<lparr>row_doc_id = ''d1'', row_chunk_text = ''the sky'', row_vector_id = 1\<rparr>],
                pending = []\<rparr>) = Inr rs
          \<and> \<lparr>res_doc_id = ''d1'', res_chunk_text = ''the sky'', score = 3\<rparr> \<in> set rs)"
proof -
  let ?s1 = "\<lparr>index = [(0, 7::nat)], index_file = Some [(0, 7)],
            chunks_tbl = [\<lparr>row_doc_id = ''d1'', row_chunk_text = ''the sky'', row_vector_id = 0\<rparr>],
            pending = []\<rparr>"
  let ?s = "\<lparr>index = [(0, 7::nat), (1, 7)], index_file = Some [(0, 7), (1, 7)],
            chunks_tbl = [\<lparr>row_doc_id = ''d1'', row_chunk_text = ''the sky'', row_vector_id = 0\<rparr>,
                          \<lparr>row_doc_id = ''d1'', row_chunk_text = ''the sky'', row_vector_id = 1\<rparr>],
            pending = []\<rparr>"
  have cl: "pending (init None [] :: nat manager) = []" by (rule init_fresh)
  note t = join_completeness[where ?'d = nat, OF I1_fresh cl ingest_twice_example]
  note q = t[THEN conjunct2, THEN conjunct1, rule_format,
      of "[(''d1'', ''the sky'')]" "''d1''" "''the sky''" "[]" ?s1 0]
  have j: "(0::nat) < length (chunk_text ''the sky'')" by (simp add: chunk_text_example)
  have h: "[(''d1'', ''the sky''), (''d1'', ''the sky'')] = [(''d1'', ''the sky'')] @ (''d1'', ''the sky'') # []
      \<and> ingest length [(''d1'', ''the sky'')] (init None []) = Inr ?s1
      \<and> (0::nat) < length (chunk_text ''the sky'')"
    using ingest_once_example j by simp
  have nt: "ntotal ?s1 + int 0 = 1" by (simp add: ntotal_def)
  have c0: "chunk_text ''the sky'' ! 0 = ''the sky''" by (simp add: chunk_text_example)
  note q1 = q[OF h, unfolded nt c0]
  have f: "filter (\<lambda>r. row_vector_id r = 1)
        [\<lparr>row_doc_id = ''d1'', row_chunk_text = ''the sky'', row_vector_id = 0\<rparr>,
         \<lparr>row_doc_id = ''d1'', row_chunk_text = ''the sky'', row_vector_id = 1\<rparr>]
       = [\<lparr>row_doc_id = ''d1'', row_chunk_text = ''the sky'', row_vector_id = 1\<rparr>]"
    using q1[THEN conjunct2, THEN conjunct1] by simp
  have k: "(1::int) \<le> 2" by simp
  have m: "1 \<le> (2::int) \<and> (3::nat, 1::int) \<in> set ((\<lambda>ix q k. [(3::nat, 1::int)]) (index ?s) (length ''sky'') (2::int))"
    by simp
  from q1[THEN conjunct2, THEN conjunct2, rule_format,
      of 2 3 "\<lambda>ix q k. [(3::nat, 1::int)]" "''sky''", OF m]
  have r: "\<exists>rs. fst (search length (\<lambda>ix q k. [(3::nat, 1)]) NoFault ''sky'' 2 ?s) = Inr rs
          \<and> \<lparr>res_doc_id = ''d1'', res_chunk_text = ''the sky'', score = 3\<rparr> \<in> set rs" .
  show ?thesis
  proof (intro conjI)
    show "I1 (init None [] :: nat manager)" by (rule I1_fresh)
    show "pending (init None [] :: nat manager) = []" by (rule cl)
    show "ingest length [(''d1'', ''the sky''), (''d1'', ''the sky'')] (init None []) = Inr ?s"
      by (rule ingest_twice_example)
    show "ingest length [(''d1'', ''the sky'')] (init None []) = Inr ?s1"
      by (rule ingest_once_example)
    show "(0::nat) < length (chunk_text ''the sky'')" by (rule j)
    show "(1::int) \<le> 2" by (rule k)
    show "filter (\<lambda>r. row_vector_id r = 1)
        [\<lparr>row_doc_id = ''d1'', row_chunk_text = ''the sky'', row_vector_id = 0\<rparr>,
         \<lparr>row_doc_id = ''d1'', row_chunk_text = ''the sky'', row_vector_id = 1\<rparr>]
       = [\<lparr>row_doc_id = ''d1'', row_chunk_text = ''the sky'', row_vector_id = 1\<rparr>]" by (rule f)
    show "\<exists>rs. fst (search length (\<lambda>ix q k. [(3::nat, 1)]) NoFault ''sky'' 2 ?s) = Inr rs
          \<and> \<lparr>res_doc_id = ''d1'', res_chunk_text = ''the sky'', score = 3\<rparr> \<in> set rs" by (rule r)
  qed
qed

section \<open>Order of the three writes of an ingestion\<close>


lemma ok_example:
  "add_document length NoFault ''d1'' ''ab'' (init None [])
     = (Inr (), \<lparr>index = [(0, 2::nat)], index_file = Some [(0, 2)],
                 chunks_tbl = [\<lparr>row_doc_id = ''d1'', row_chunk_text = ''ab'', row_vector_id = 0\<rparr>],
                 pending = []\<rparr>)"
  by code_simp

subsection \<open>A document whose second chunk contains NUL\<close>













section \<open>A failing reset\<close>

text \<open>
  Claim C4, on the code. Ingest one document into the fresh manager, then call \<^verbatim>\<open>reset\<close>
  while \<^verbatim>\<open>TRUNCATE\<close> raises: the handler rolls back and does not re-raise, so the call
  goes on, removes the index file, empties the index and returns normally, with the row
  still in the table. I1 no longer holds, and the next ingestion allocates id 0 again and
  fails on the \<^verbatim>\<open>UNIQUE\<close> constraint.
\<close>

theorem reset_truncate_failure:
  "snd (add_document length NoFault ''d1'' ''ab'' (init None []))
     = \<lparr>index = [(0, 2::nat)], index_file = Some [(0, 2)],
        chunks_tbl = [\<lparr>row_doc_id = ''d1'', row_chunk_text = ''ab'', row_vector_id = 0\<rparr>],
        pending = []\<rparr>
   \<and> reset (FailAt 0)
        \<lparr>index = [(0, 2::nat)], index_file = Some [(0, 2)],
         chunks_tbl = [\<lparr>row_doc_id = ''d1'', row_chunk_text = ''ab'', row_vector_id = 0\<rparr>],
         pending = []\<rparr>
     = (Inr (),
        \<lparr>index = [], index_file = None,
         chunks_tbl = [\<lparr>row_doc_id = ''d1'', row_chunk_text = ''ab'', row_vector_id = 0\<rparr>],
         pending = []\<rparr>)
   \<and> \<not> I1 \<lparr>index = [] :: (int \<times> nat) list, index_file = None,
         chunks_tbl = [\<lparr>row_doc_id = ''d1'', row_chunk_text = ''ab'', row_vector_id = 0\<rparr>],
         pending = []\<rparr>
   \<and> fst (add_document length NoFault ''d2'' ''b''
         \<lparr>index = [] :: (int \<times> nat) list, index_file = None,
          chunks_tbl = [\<lparr>row_doc_id = ''d1'', row_chunk_text = ''ab'', row_vector_id = 0\<rparr>],
          pending = []\<rparr>)
       = Inl UniqueViolation"
proof (intro conjI)
  show "snd (add_document length NoFault ''d1'' ''ab'' (init None []))
     = \<lparr>index = [(0, 2::nat)], index_file = Some [(0, 2)],
        chunks_tbl = [\<lparr>row_doc_id = ''d1'', row_chunk_text = ''ab'', row_vector_id = 0\<rparr>],
        pending = []\<rparr>"
    by (simp only: ok_example snd_conv)
  show "reset (FailAt 0)
        \<lparr>index = [(0, 2::nat)], index_file = Some [(0, 2)],
         chunks_tbl = [\<lparr>row_doc_id = ''d1'', row_chunk_text = ''ab'', row_vector_id = 0\<rparr>],
         pending = []\<rparr>
     = (Inr (),
        \<lparr>index = [], index_file = None,
         chunks_tbl = [\<lparr>row_doc_id = ''d1'', row_chunk_text = ''ab'', row_vector_id = 0\<rparr>],
         pending = []\<rparr>)"
    by (simp add: reset_def pg_raises_def load_index_def Let_def)
  show "\<not> I1 \<lparr>index = [] :: (int \<times> nat) list, index_file = None,
         chunks_tbl = [\<lparr>row_doc_id = ''d1'', row_chunk_text = ''ab'', row_vector_id = 0\<rparr>],
         pending = []\<rparr>"
    by (simp add: I1_def)
  show "fst (add_document length NoFault ''d2'' ''b''
         \<lparr>index = [] :: (int \<times> nat) list, index_file = None,
          chunks_tbl = [\<lparr>row_doc_id = ''d1'', row_chunk_text = ''ab'', row_vector_id = 0\<rparr>],
          pending = []\<rparr>)
       = Inl UniqueViolation"
    by code_simp
qed

section \<open>Order of the search results\<close>

lemma sorted_wrt_fst_filter:
  "sorted_wrt le (map fst xs) \<Longrightarrow> sorted_wrt le (map fst (filter P xs))"
  by (simp add: sorted_wrt_map sorted_wrt_filter)

lemma join_example:
  "join_rows [\<lparr>row_doc_id = ''d1'', row_chunk_text = ''a'', row_vector_id = 0\<rparr>]
             [(2::nat, 5), (4, - 1), (6, 0)]
     = [\<lparr>res_doc_id = ''d1'', res_chunk_text = ''a'', score = 6\<rparr>]"
  by (simp add: join_rows_def)

lemma search_cases:
  "search encode knn f query k s =
     (if k < 1 then (Inl IndexSearchError, s)
      else if filter (\<lambda>vid. vid \<noteq> - 1) (map snd (knn (index s) (encode query) k)) \<noteq> []
              \<and> pg_raises f 0
      then (Inl PgError, s\<lparr>pending := []\<rparr>)
      else (Inr (join_rows (chunks_tbl s @ pending s) (knn (index s) (encode query) k)), s))"
proof -
  have e: "join_rows (visible s) (knn (index s) (encode query) k) = []"
    if "filter (\<lambda>vid. vid \<noteq> - 1) (map snd (knn (index s) (encode query) k)) = []"
    using that by (rule join_rows_sentinel)
  show ?thesis using e by (simp add: search_join Let_def visible_def)
qed

text \<open>
  Claim C6. \<^verbatim>\<open>search\<close> for at least one neighbour, when the \<^verbatim>\<open>SELECT\<close> does not fail,
  returns the join of the neighbours, in the order the vector index returned them, with
  the rows the connection sees. The only errors a call can result in are that of the
  index asked for fewer than one neighbour and that of a failing \<^verbatim>\<open>SELECT\<close>. The scores
  of the results are the distances of those neighbours whose id is not the sentinel
  \<open>-1\<close> and has a row, in the index's order: a neighbour without a row, the sentinel
  included, is dropped and raises nothing. Hence, for any order relation, scores are
  ordered by position whenever the distances returned by the index are.
\<close>

theorem search_ranking:
  "(1 \<le> k \<longrightarrow>
      fst (search encode knn NoFault query k s)
        = Inr (join_rows (chunks_tbl s @ pending s) (knn (index s) (encode query) k)))
   \<and> (case fst (search encode knn f query k s) of
         Inl e \<Rightarrow> (e = IndexSearchError \<and> k < 1) \<or> (e = PgError \<and> pg_raises f 0 \<and> 1 \<le> k)
       | Inr rs \<Rightarrow>
           1 \<le> k
           \<and> rs = join_rows (chunks_tbl s @ pending s) (knn (index s) (encode query) k)
           \<and> map score rs
               = map fst (filter (\<lambda>(dist, vid). vid \<noteq> - 1
                                    \<and> vid \<in> set (map row_vector_id (chunks_tbl s @ pending s)))
                                 (knn (index s) (encode query) k))
           \<and> (sorted_wrt le (map fst (knn (index s) (encode query) k))
                 \<longrightarrow> sorted_wrt le (map score rs)))"
proof -
  let ?nbrs = "knn (index s) (encode query) k"
  let ?tbl = "chunks_tbl s @ pending s"
  have a: "1 \<le> k \<longrightarrow> fst (search encode knn NoFault query k s) = Inr (join_rows ?tbl ?nbrs)"
    by (simp add: search_cases pg_raises_def)
  have sc: "map score (join_rows ?tbl ?nbrs)
      = map fst (filter (\<lambda>(dist, vid). vid \<noteq> - 1
                                    \<and> vid \<in> set (map row_vector_id ?tbl)) ?nbrs)"
    by (rule join_rows_scores)
  have so: "sorted_wrt le (map fst ?nbrs) \<longrightarrow> sorted_wrt le (map score (join_rows ?tbl ?nbrs))"
    by (simp only: sc) (blast intro: sorted_wrt_fst_filter)
  have b: "case fst (search encode knn f query k s) of
         Inl e \<Rightarrow> (e = IndexSearchError \<and> k < 1) \<or> (e = PgError \<and> pg_raises f 0 \<and> 1 \<le> k)
       | Inr rs \<Rightarrow>
           1 \<le> k
           \<and> rs = join_rows ?tbl ?nbrs
           \<and> map score rs
               = map fst (filter (\<lambda>(dist, vid). vid \<noteq> - 1
                                    \<and> vid \<in> set (map row_vector_id ?tbl)) ?nbrs)
           \<and> (sorted_wrt le (map fst ?nbrs) \<longrightarrow> sorted_wrt le (map score rs))"
  proof (cases "k < 1")
    case True
    then show ?thesis by (simp add: search_cases)
  next
    case False
    note k = this
    show ?thesis
    proof (cases "filter (\<lambda>vid. vid \<noteq> - 1) (map snd ?nbrs) \<noteq> [] \<and> pg_raises f 0")
      case True
      with k show ?thesis by (simp add: search_cases)
    next
      case False
      with k have "fst (search encode knn f query k s) = Inr (join_rows ?tbl ?nbrs)"
        by (simp only: search_cases if_False fst_conv)
      with k sc so show ?thesis by (simp only: sum.case) simp
    qed
  qed
  from a b show ?thesis by (rule conjI)
qed

theorem search_ranking_witness:
  "(1::int) \<le> 3
   \<and> fst (search length (\<lambda>ix q k. [(2::nat, 5), (4, - 1), (6, 0)]) NoFault ''q'' 3
          \<lparr>index = [(0, 2::nat), (5, 2)], index_file = None,
           chunks_tbl = [\<lparr>row_doc_id = ''d1'', row_chunk_text = ''a'', row_vector_id = 0\<rparr>],
           pending = []\<rparr>)
     = Inr [\<lparr>res_doc_id = ''d1'', res_chunk_text = ''a'', score = 6\<rparr>]
   \<and> sorted_wrt (\<le>) (map fst [(2::nat, 5::int), (4, - 1), (6, 0)])
   \<and> sorted_wrt (\<le>) (map score [\<lparr>res_doc_id = ''d1'', res_chunk_text = ''a'', score = 6::nat\<rparr>])
   \<and> fst (search length (\<lambda>ix q k. [(2::nat, 5), (4, - 1), (6, 0)]) (FailAt 0) ''q'' 3
          \<lparr>index = [(0, 2::nat), (5, 2)], index_file = None,
           chunks_tbl = [\<lparr>row_doc_id = ''d1'', row_chunk_text = ''a'', row_vector_id = 0\<rparr>],
           pending = []\<rparr>)
     = Inl PgError"
proof -
  let ?s = "\<lparr>index = [(0, 2::nat), (5, 2)], index_file = None,
           chunks_tbl = [\<lparr>row_doc_id = ''d1'', row_chunk_text = ''a'', row_vector_id = 0\<rparr>],
           pending = []\<rparr>"
  let ?knn = "\<lambda>(ix :: (int \<times> nat) list) (q :: nat) (k :: int). [(2::nat, 5::int), (4, - 1), (6, 0)]"
  note t = search_ranking[where encode = length and knn = ?knn and query = "''q''" and k = 3
      and s = ?s and f = "FailAt 0" and le = "(\<le>)"]
  have k: "(1::int) \<le> 3" by simp
  from t[THEN conjunct1, THEN mp, OF k]
  have a: "fst (search length ?knn NoFault ''q'' 3 ?s)
     = Inr [\<lparr>res_doc_id = ''d1'', res_chunk_text = ''a'', score = 6\<rparr>]"
    by (simp add: join_example)
  have b: "fst (search length ?knn (FailAt 0) ''q'' 3 ?s) = Inl PgError"
    by (simp add: search_def pg_raises_def)
  have c: "sorted_wrt (\<le>) (map fst [(2::nat, 5::int), (4, - 1), (6, 0)])" by simp
  have d: "sorted_wrt (\<le>) (map score [\<lparr>res_doc_id = ''d1'', res_chunk_text = ''a'', score = 6::nat\<rparr>])"
    by simp
  from k a c d b show ?thesis by (intro conjI)
qed

section \<open>No validation of the arguments\<close>

lemma insert_loop_docid:
  "\<not> has_nul d \<Longrightarrow> \<not> has_nul d' \<Longrightarrow> map row_vector_id p = map row_vector_id p' \<Longrightarrow>
     fst (insert_loop f d i cvs tbl p) = fst (insert_loop f d' i cvs tbl p')"
proof (induction cvs arbitrary: i p p')
  case Nil
  show ?case by simp
next
  case (Cons q cvs)
  obtain chunk vid where q: "q = (chunk, vid)" by (cases q)
  let ?r = "\<lparr>row_doc_id = d, row_chunk_text = chunk, row_vector_id = vid\<rparr>"
  let ?r' = "\<lparr>row_doc_id = d', row_chunk_text = chunk, row_vector_id = vid\<rparr>"
  have "map row_vector_id (p @ [?r]) = map row_vector_id (p' @ [?r'])"
    using Cons.prems(3) by simp
  from Cons.IH[OF Cons.prems(1,2) this, of "Suc i"] Cons.prems show ?case
    by (simp add: q)
qed

lemma add_document_status:
  "fst (add_document encode f d content s) =
     (if chunk_text content = [] then Inr ()
      else case fst (insert_loop f d 0 (zip (chunk_text content) (vector_ids s content))
                       (chunks_tbl s) (pending s)) of
             Some e \<Rightarrow> Inl e
           | None \<Rightarrow> if pg_raises f (length (chunk_text content)) then Inl PgError else Inr ())"
proof -
  obtain r p where lp: "insert_loop f d 0 (zip (chunk_text content) (vector_ids s content))
                  (chunks_tbl s) (pending s) = (r, p)" by (cases "insert_loop f d 0
                  (zip (chunk_text content) (vector_ids s content)) (chunks_tbl s) (pending s)")
  show ?thesis by (cases r) (simp_all add: add_document_unfold lp)
qed

lemma add_document_docid:
  assumes "\<not> has_nul d"
  shows "fst (add_document encode f [] content s) = fst (add_document encode f d content s)"
proof -
  have e: "\<not> has_nul []" by (simp add: has_nul_def)
  have "fst (insert_loop f [] 0 (zip (chunk_text content) (vector_ids s content))
               (chunks_tbl s) (pending s))
      = fst (insert_loop f d 0 (zip (chunk_text content) (vector_ids s content))
               (chunks_tbl s) (pending s))"
    by (rule insert_loop_docid[OF e assms]) simp
  then show ?thesis by (simp only: add_document_status)
qed

lemma add_document_file:
  "index_file (snd (add_document encode f d content s)) =
     (if fst (add_document encode f d content s) = Inr () \<and> chunk_text content \<noteq> []
      then Some (index s @ zip (vector_ids s content) (map encode (chunk_text content)))
      else index_file s)"
proof (cases "fst (add_document encode f d content s)")
  case (Inl e)
  then show ?thesis by (simp add: add_document_Inl(2)[OF Inl])
next
  case (Inr u)
  show ?thesis
  proof (cases "chunk_text content = []")
    case True
    then show ?thesis by (simp add: add_document_Inr(4)[OF Inr])
  next
    case False
    from add_document_Inr(3)[OF Inr False] Inr False show ?thesis
      by (simp add: add_document_index)
  qed
qed

lemma empty_docid_example:
  "add_document length NoFault [] ''ab'' (init None [])
     = (Inr (), \<lparr>index = [(0, 2::nat)], index_file = Some [(0, 2)],
                 chunks_tbl = [\<lparr>row_doc_id = [], row_chunk_text = ''ab'', row_vector_id = 0\<rparr>],
                 pending = []\<rparr>)"
  by code_simp

text \<open>
  \<^verbatim>\<open>add_document\<close> with the empty document id on a one-token content and the fresh
  manager is not rejected: it returns normally, having extended the index, written the
  index file and committed a row whose document id is empty. \<^verbatim>\<open>search\<close> for no
  neighbour results in the error of the vector index.
\<close>

theorem validation_counterexample:
  "fst (add_document length NoFault [] ''ab'' (init None [] :: nat manager)) = Inr ()
   \<and> snd (add_document length NoFault [] ''ab'' (init None [] :: nat manager)) \<noteq> init None []
   \<and> chunks_tbl (snd (add_document length NoFault [] ''ab'' (init None [] :: nat manager)))
       = [\<lparr>row_doc_id = [], row_chunk_text = ''ab'', row_vector_id = 0\<rparr>]
   \<and> fst (search length (\<lambda>ix q k. [] :: (nat \<times> int) list) NoFault ''q'' 0
            (init None [] :: nat manager)) = Inl IndexSearchError"
  by (simp only: empty_docid_example fst_conv snd_conv) (simp add: init_fresh_eq search_def)

text \<open>
  Claim C7, amended. \<^verbatim>\<open>add_document\<close> does not validate the document id and does not
  reject the empty one: with it the call does what it does with any document id that has
  no NUL character, same outcome, same index, same index file, and when it succeeds it
  commits its rows with the empty document id. \<^verbatim>\<open>search\<close> with \<open>k < 1\<close> is rejected
  before any access to a store, so without any mutation, by the error that the vector
  index raises for such a \<open>k\<close>.
\<close>

theorem no_validation:
  "(\<not> has_nul d \<longrightarrow>
      fst (add_document encode f [] content s) = fst (add_document encode f d content s)
      \<and> index (snd (add_document encode f [] content s))
          = index (snd (add_document encode f d content s))
      \<and> index_file (snd (add_document encode f [] content s))
          = index_file (snd (add_document encode f d content s)))
   \<and> (fst (add_document encode f [] content s) = Inr () \<and> chunk_text content \<noteq> [] \<longrightarrow>
        chunks_tbl (snd (add_document encode f [] content s))
          = chunks_tbl s @ pending s @ rows_of [] (chunk_text content) (vector_ids s content))
   \<and> (k < 1 \<longrightarrow> search encode knn g query k s = (Inl IndexSearchError, s))"
proof (intro conjI impI)
  assume n: "\<not> has_nul d"
  show st: "fst (add_document encode f [] content s) = fst (add_document encode f d content s)"
    using n by (rule add_document_docid)
  show "index (snd (add_document encode f [] content s))
       = index (snd (add_document encode f d content s))"
    by (simp only: add_document_index)
  show "index_file (snd (add_document encode f [] content s))
       = index_file (snd (add_document encode f d content s))"
    by (simp only: add_document_file st)
next
  assume "fst (add_document encode f [] content s) = Inr () \<and> chunk_text content \<noteq> []"
  then have ok: "fst (add_document encode f [] content s) = Inr ()"
    and ne: "chunk_text content \<noteq> []" by simp_all
  show "chunks_tbl (snd (add_document encode f [] content s))
          = chunks_tbl s @ pending s @ rows_of [] (chunk_text content) (vector_ids s content)"
    by (rule add_document_Inr(1)[OF ok ne])
next
  assume "k < 1"
  then show "search encode knn g query k s = (Inl IndexSearchError, s)"
    by (simp add: search_def)
qed

theorem no_validation_witness:
  "\<not> has_nul ''d''
   \<and> fst (add_document length NoFault [] ''ab'' (init None [] :: nat manager))
       = fst (add_document length NoFault ''d'' ''ab'' (init None [] :: nat manager))
   \<and> fst (add_document length NoFault [] ''ab'' (init None [] :: nat manager)) = Inr ()
   \<and> chunk_text ''ab'' \<noteq> []
   \<and> chunks_tbl (snd (add_document length NoFault [] ''ab'' (init None [] :: nat manager)))
       = [\<lparr>row_doc_id = [], row_chunk_text = ''ab'', row_vector_id = 0\<rparr>]
   \<and> (0::int) < 1
   \<and> search length (\<lambda>ix q k. [(2::nat, 0::int)]) NoFault ''q'' 0 (init None [] :: nat manager)
       = (Inl IndexSearchError, init None [])"
proof -
  note t = no_validation[where encode = length and f = NoFault and content = "''ab''"
      and s = "init None [] :: nat manager" and d = "''d''" and k = 0 and g = NoFault
      and knn = "\<lambda>(ix :: (int \<times> nat) list) (q :: nat) (k :: int). [(2::nat, 0::int)]"
      and query = "''q''"]
  have n: "\<not> has_nul ''d''" by (simp add: has_nul_def)
  note t1 = t[THEN conjunct1, THEN mp, OF n, THEN conjunct1]
  have a: "fst (add_document length NoFault [] ''ab'' (init None [] :: nat manager)) = Inr ()"
    by (simp only: empty_docid_example fst_conv)
  have v: "vector_ids (init None [] :: nat manager) ''ab'' = [0]" by code_simp
  have c: "chunk_text ''ab'' = [''ab'']" by code_simp
  have ne: "chunk_text ''ab'' \<noteq> []" by (simp add: c)
  have an: "fst (add_document length NoFault [] ''ab'' (init None [] :: nat manager)) = Inr ()
      \<and> chunk_text ''ab'' \<noteq> []" using a ne by (rule conjI)
  note t4 = t[THEN conjunct2, THEN conjunct1, THEN mp, OF an]
  have r: "rows_of [] [''ab''] [0]
      = [\<lparr>row_doc_id = [], row_chunk_text = ''ab'', row_vector_id = 0\<rparr>]"
    by (simp add: rows_of_def)
  have b: "chunks_tbl (snd (add_document length NoFault [] ''ab'' (init None [] :: nat manager)))
       = [\<lparr>row_doc_id = [], row_chunk_text = ''ab'', row_vector_id = 0\<rparr>]"
    using t4 by (simp only: v c r init_fresh append_Nil)
  have k: "(0::int) < 1" by simp
  note t5 = t[THEN conjunct2, THEN conjunct2, THEN mp, OF k]
  show ?thesis by (intro conjI) (rule n, rule t1, rule a, rule ne, rule b, rule k, rule t5)
qed

section \<open>Reset, twice\<close>







end
